theory Spec2Isabelle
  imports Main "HOL-Library.Word" "HOL-Library.Log_Nat" "HOL-Library.AList"
begin

section \<open>The client registry of src\_cpp/elf/distri/client\_manager.h\<close>

text \<open>
  The header defines \<open>ClientInfo\<close> (one connected worker, with one \<open>State\<close> slot per
  worker thread) and \<open>ClientManager\<close> (the registry: identity map, per-type counters,
  type allocation policy, liveness sweep). The embedding below follows the header
  function by function.

  \<^item> An \<open>assert\<close> that fires aborts the process: it is the fault \<open>AssertionFailure\<close>.
    An index outside a \<open>std::vector\<close> read with \<open>operator[]\<close> is the fault
    \<open>IndexOutOfRange\<close>.
  \<^item> \<open>uint64_t\<close> timestamps are 64-bit words: subtraction wraps and \<open><\<close> is unsigned.
  \<^item> The counters \<open>m_n\<close> and \<open>m_num_clients[t]\<close> are C++ \<open>int\<close>; they are \<open>int\<close> here
    (they move by one per record, overflow is not modelled).
  \<^item> \<open>float\<close> is IEEE binary32: the values are \<open>f32\<close>, and conversion from \<open>int\<close> and
    division round to nearest, ties to even.
  \<^item> The injected timer \<open>m_timer\<close> is called without arguments and may answer differently
    each time: it is a sequence \<open>nat \<Rightarrow> uint64\<close> (the answer of the k-th call) together
    with the number of calls made so far.
  \<^item> The mutexes are not modelled: every function is the sequential body it protects.
  \<^item> A data member \<open>x_\<close> of the header is the field \<open>m_x\<close> here, and the private
    \<open>_getClient\<close> is \<open>getClient_impl\<close> (a name can neither end nor start with an underscore);
    \<open>last_state_update_\<close> is \<open>m_last_state_update_ts\<close>, since a record names the update
    function of \<open>m_last_state\<close> \<open>m_last_state_update\<close>.
\<close>

datatype fault = AssertionFailure | IndexOutOfRange

type_synonym uint64 = "64 word"

type_synonym ClientType = int

subsection \<open>Declarations of client\_manager\_def.h\<close>

text \<open>
  Modelled from the spec: \<open>CLIENT_INVALID\<close> is declared in client\_manager\_def.h, which is
  not among the sources. The spec calls it the "unassigned/invalid sentinel" of the
  integer role id, and the header initialises \<open>m_type\<close> with \<open>-1\<close>.
\<close>

definition CLIENT_INVALID :: ClientType where
  "CLIENT_INVALID = -1"

text \<open>
  Modelled from the spec: \<open>ThreadState\<close> is declared in client\_manager\_def.h, which is not
  among the sources. The spec calls it an "opaque, equality-comparable snapshot"; the
  header reads its field \<open>thread_id\<close> and compares two values with \<open>!=\<close>. The rest of
  the snapshot is the type parameter \<open>'p\<close>, and \<open>!=\<close> is inequality of the whole value.
  A default-constructed \<open>ThreadState\<close> is a parameter \<open>ts0\<close> of the functions that
  construct records.
\<close>

record 'p ThreadState =
  thread_id :: int
  payload :: 'p

text \<open>
  The values of a \<open>float\<close>: a finite value is the rational it denotes (a value that
  \<open>round_f32\<close> below returns, when it comes from the code).
\<close>

datatype f32 = Finite rat | PInf | NInf | NaN

text \<open>
  Modelled from the spec: \<open>ClientManagerOptions\<close> is declared outside the sources. These
  are the four fields the header reads ("Configuration surface" of the spec).
\<close>

record ClientManagerOptions =
  client_type_ratios :: "f32 list"
  client_type_limits :: "int list"
  max_num_threads :: int
  client_max_delay_sec :: int

subsection \<open>IEEE binary32 arithmetic used by the allocation policy\<close>

text \<open>
  The sign of a zero is dropped: it does not change \<open><\<close>, and the policy divides by
  \<open>n_\<close> only when \<open>n_\<close> is not 0. \<open>round_f32\<close> rounds a rational to the nearest binary32
  value, ties to even: 24 bits of precision, least exponent \<open>-126\<close>, overflow to
  infinity from \<open>2^128\<close>. \<open>ilog2 x\<close> is the exponent of a positive \<open>x\<close>, the integer \<open>e\<close>
  with \<open>2^e \<le> x < 2^(e+1)\<close>.
\<close>

definition pow2 :: "int \<Rightarrow> rat" where
  "pow2 e = (if 0 \<le> e then 2 ^ nat e else 1 / 2 ^ nat (- e))"

definition ilog2 :: "rat \<Rightarrow> int" where
  "ilog2 x =
     (let (a, b) = quotient_of x;
          e = bitlen a - bitlen b
      in if pow2 e \<le> x then e else e - 1)"

definition round_half_even :: "rat \<Rightarrow> int" where
  "round_half_even m =
     (let f = \<lfloor>m\<rfloor>; d = m - of_int f
      in if d < 1 / 2 then f
         else if 1 / 2 < d then f + 1
         else if even f then f else f + 1)"

definition round_f32 :: "rat \<Rightarrow> f32" where
  "round_f32 x =
     (if x = 0 then Finite 0
      else let e = max (ilog2 \<bar>x\<bar>) (- 126);
               q = pow2 (e - 23);
               r = of_int (round_half_even (x / q)) * q
           in if pow2 128 \<le> \<bar>r\<bar> then (if 0 < x then PInf else NInf) else Finite r)"

text \<open>\<open>static_cast<float>(i)\<close>, and the implicit conversion of \<open>m_n\<close> in \<open>x / n_\<close>.\<close>

definition f32_of_int :: "int \<Rightarrow> f32" where
  "f32_of_int i = round_f32 (of_int i)"

fun f32_div :: "f32 \<Rightarrow> f32 \<Rightarrow> f32" where
  "f32_div NaN y = NaN"
| "f32_div x NaN = NaN"
| "f32_div (Finite a) (Finite b) =
     (if b = 0 then (if a = 0 then NaN else if 0 < a then PInf else NInf)
      else round_f32 (a / b))"
| "f32_div (Finite a) y = Finite 0"
| "f32_div PInf (Finite b) = (if 0 \<le> b then PInf else NInf)"
| "f32_div NInf (Finite b) = (if 0 \<le> b then NInf else PInf)"
| "f32_div x y = NaN"

fun f32_lt :: "f32 \<Rightarrow> f32 \<Rightarrow> bool" where
  "f32_lt NaN y = False"
| "f32_lt x NaN = False"
| "f32_lt (Finite a) (Finite b) = (a < b)"
| "f32_lt (Finite a) PInf = True"
| "f32_lt (Finite a) NInf = False"
| "f32_lt NInf NInf = False"
| "f32_lt NInf y = True"
| "f32_lt PInf y = False"

subsection \<open>ClientInfo::State\<close>

datatype ClientChange = ALIVE2DEAD | DEAD2ALIVE | ALIVE | DEAD

record 'p State =
  m_last_state :: "'p ThreadState"
  m_last_state_update_ts :: uint64

text \<open>
  \<open>State::State(mgr)\<close>: \<open>m_last_state\<close> is default-constructed and \<open>m_last_state_update_ts\<close> is
  one reading of the timer. \<open>tm\<close> is the timer, \<open>k\<close> the number of readings so far.
\<close>

definition State_init :: "(nat \<Rightarrow> uint64) \<Rightarrow> nat \<Rightarrow> 'p ThreadState \<Rightarrow> 'p State \<times> nat" where
  "State_init tm k ts0 = (\<lparr>m_last_state = ts0, m_last_state_update_ts = tm k\<rparr>, Suc k)"

definition StateUpdate ::
  "(nat \<Rightarrow> uint64) \<Rightarrow> nat \<Rightarrow> 'p State \<Rightarrow> 'p ThreadState \<Rightarrow> bool \<times> 'p State \<times> nat" where
  "StateUpdate tm k st ts =
     (if m_last_state st \<noteq> ts
      then (True, st\<lparr>m_last_state := ts, m_last_state_update_ts := tm k\<rparr>, Suc k)
      else (False, st, k))"

subsection \<open>ClientInfo\<close>

record 'p ClientInfo =
  m_identity :: string
  m_type :: ClientType
  m_max_delay_sec :: uint64
  m_seq :: int
  m_active :: bool
  m_last_update :: uint64
  m_threads :: "'p State list"

text \<open>The constructor's loop \<open>for (i = 0; i < num_threads; ++i) m_threads.emplace_back(...)\<close>.\<close>

fun new_threads ::
  "(nat \<Rightarrow> uint64) \<Rightarrow> nat \<Rightarrow> 'p ThreadState \<Rightarrow> nat \<Rightarrow> 'p State list \<times> nat" where
  "new_threads tm k ts0 0 = ([], k)"
| "new_threads tm k ts0 (Suc i) =
     (let (st, k1) = State_init tm k ts0;
          (sts, k2) = new_threads tm k1 ts0 i
      in (st # sts, k2))"

text \<open>
  \<open>ClientInfo::ClientInfo(mgr, id, num_threads, max_delay_sec)\<close>. The \<open>int\<close> argument
  \<open>max_delay_sec\<close> initialises the \<open>uint64_t\<close> member: conversion modulo \<open>2^64\<close>.
\<close>

definition ClientInfo_init ::
  "(nat \<Rightarrow> uint64) \<Rightarrow> nat \<Rightarrow> 'p ThreadState \<Rightarrow> string \<Rightarrow> int \<Rightarrow> int \<Rightarrow> 'p ClientInfo \<times> nat" where
  "ClientInfo_init tm k ts0 ident num_threads max_delay_sec =
     (let (ths, k1) = new_threads tm k ts0 (nat num_threads)
      in (\<lparr>m_identity = ident, m_type = - 1, m_max_delay_sec = word_of_int max_delay_sec,
            m_seq = 0, m_active = True, m_last_update = tm k1, m_threads = ths\<rparr>, Suc k1))"

definition set_type :: "'p ClientInfo \<Rightarrow> ClientType \<Rightarrow> 'p ClientInfo" where
  "set_type c t = c\<lparr>m_type := t\<rparr>"

definition IsActive :: "'p ClientInfo \<Rightarrow> bool" where
  "IsActive c = m_active c"

definition IsStuck :: "'p ClientInfo \<Rightarrow> uint64 \<Rightarrow> bool \<times> uint64" where
  "IsStuck c curr_timestamp =
     (let last_delay = curr_timestamp - m_last_update c
      in (last_delay \<ge> m_max_delay_sec c, last_delay))"

definition stateUpdate ::
  "(nat \<Rightarrow> uint64) \<Rightarrow> nat \<Rightarrow> 'p ClientInfo \<Rightarrow> 'p ThreadState \<Rightarrow> fault + ('p ClientInfo \<times> nat)" where
  "stateUpdate tm k c ts =
     (if \<not> (thread_id ts \<ge> 0 \<and> thread_id ts < int (length (m_threads c)))
      then Inl AssertionFailure
      else let i = nat (thread_id ts);
               (changed, st, k1) = StateUpdate tm k (m_threads c ! i) ts;
               c1 = c\<lparr>m_threads := (m_threads c)[i := st]\<rparr>
           in if changed then Inr (c1\<lparr>m_last_update := tm k1\<rparr>, Suc k1)
              else Inr (c1, k1))"

definition updateActive ::
  "(nat \<Rightarrow> uint64) \<Rightarrow> nat \<Rightarrow> 'p ClientInfo \<Rightarrow> ClientChange \<times> 'p ClientInfo \<times> nat" where
  "updateActive tm k c =
     (let curr_active = (tm k - m_last_update c < m_max_delay_sec c)
      in if m_active c
         then (if \<not> curr_active then (ALIVE2DEAD, c\<lparr>m_active := False\<rparr>, Suc k)
               else (ALIVE, c, Suc k))
         else (if curr_active then (DEAD2ALIVE, c\<lparr>m_active := True\<rparr>, Suc k)
               else (DEAD, c, Suc k)))"

subsection \<open>ClientManager\<close>

text \<open>
  \<open>m_clients\<close> is the \<open>std::unordered_map\<close> from identity to record, as the list of its
  entries (one per identity) in the order in which the map is iterated; the sweep visits
  the entries in that order. The standard leaves the order unspecified, and an insertion
  may change it: \<open>m_order\<close> stands for the map's choice. When an identity is inserted,
  \<open>m_order\<close> is given the identities (the old ones in their order, then the new one) and
  answers the order of iteration from then on. \<open>m_timer_calls\<close> counts the readings of
  \<open>m_timer\<close>.
\<close>

record 'p ClientManager =
  m_options :: ClientManagerOptions
  m_timer :: "nat \<Rightarrow> uint64"
  m_timer_calls :: nat
  m_clients :: "(string \<times> 'p ClientInfo) list"
  m_order :: "string list \<Rightarrow> string list"
  m_num_clients :: "int list"
  m_n :: int

text \<open>
  The entries \<open>cs\<close> in the order \<open>ord\<close> chooses for their identities. An answer of
  \<open>ord\<close> that is not a rearrangement of the identities is not an order of iteration:
  the entries then stay as they are.
\<close>

definition arrange :: "(string list \<Rightarrow> string list) \<Rightarrow> (string \<times> 'a) list \<Rightarrow> (string \<times> 'a) list" where
  "arrange ord cs =
     (let ks = ord (map fst cs)
      in if distinct ks \<and> set ks = set (map fst cs)
         then map (\<lambda>k. (k, the (map_of cs k))) ks
         else cs)"

text \<open>
  The constructor; \<open>timer_ != nullptr\<close> holds of every \<open>tm\<close>. \<open>ord\<close> is the order of
  iteration of the empty map \<open>clients_\<close> that the object is born with.
\<close>

definition ClientManager_init ::
  "ClientManagerOptions \<Rightarrow> (nat \<Rightarrow> uint64) \<Rightarrow> (string list \<Rightarrow> string list)
     \<Rightarrow> fault + 'p ClientManager" where
  "ClientManager_init options tm ord =
     (if length (client_type_ratios options) \<noteq> length (client_type_limits options)
      then Inl AssertionFailure
      else Inr \<lparr>m_options = options, m_timer = tm, m_timer_calls = 0, m_clients = [],
                m_order = ord,
                m_num_clients = replicate (length (client_type_ratios options)) 0,
                m_n = 0\<rparr>)"

definition setClientTypeRatio :: "'p ClientManager \<Rightarrow> f32 list \<Rightarrow> 'p ClientManager" where
  "setClientTypeRatio m ratio = m\<lparr>m_options := (m_options m)\<lparr>client_type_ratios := ratio\<rparr>\<rparr>"

definition getCurrTimeStamp :: "'p ClientManager \<Rightarrow> uint64 \<times> 'p ClientManager" where
  "getCurrTimeStamp m = (m_timer m (m_timer_calls m), m\<lparr>m_timer_calls := Suc (m_timer_calls m)\<rparr>)"

definition getClientC :: "'p ClientManager \<Rightarrow> string \<Rightarrow> 'p ClientInfo option" where
  "getClientC m ident = map_of (m_clients m) ident"

subsubsection \<open>alloc\_type and dealloc\_type\<close>

text \<open>The two tests of the loop body of \<open>alloc_type\<close>, at type \<open>t\<close>.\<close>

definition under_limit :: "'p ClientManager \<Rightarrow> nat \<Rightarrow> bool" where
  "under_limit m t = (m_num_clients m ! t < client_type_limits (m_options m) ! t)"

definition curr_ratio :: "'p ClientManager \<Rightarrow> nat \<Rightarrow> f32" where
  "curr_ratio m t = f32_div (f32_of_int (m_num_clients m ! t)) (f32_of_int (m_n m))"

definition under_ratio :: "'p ClientManager \<Rightarrow> nat \<Rightarrow> bool" where
  "under_ratio m t = f32_lt (curr_ratio m t) (client_type_ratios (m_options m) ! t)"

text \<open>
  The loop \<open>for (t = 0; t < num_clients_.size(); t++)\<close> over the types still to visit,
  with the vectors \<open>pri0\<close> and \<open>pri1\<close> built so far. The loop indexes the limits and
  the ratios with \<open>operator[]\<close>, whatever their sizes.
\<close>

fun alloc_type_loop ::
  "'p ClientManager \<Rightarrow> nat list \<Rightarrow> ClientType list \<Rightarrow> ClientType list
     \<Rightarrow> fault + (ClientType list \<times> ClientType list)" where
  "alloc_type_loop m [] pri0 pri1 = Inr (pri0, pri1)"
| "alloc_type_loop m (t # ts) pri0 pri1 =
     (if length (client_type_limits (m_options m)) \<le> t then Inl IndexOutOfRange
      else let pri1' = (if under_limit m t then pri1 @ [int t] else pri1)
           in if length (client_type_ratios (m_options m)) \<le> t then Inl IndexOutOfRange
              else let pri0' = (if under_ratio m t then pri0 @ [int t] else pri0)
                   in alloc_type_loop m ts pri0' pri1')"

definition alloc_type :: "'p ClientManager \<Rightarrow> fault + (ClientType \<times> 'p ClientManager)" where
  "alloc_type m =
     (if m_n m = 0 then Inr (0, m)
      else case alloc_type_loop m [0 ..< length (m_num_clients m)] [] [] of
             Inl e \<Rightarrow> Inl e
           | Inr (pri0, pri1) \<Rightarrow>
               let t_choice = (if pri0 \<noteq> [] then hd pri0
                               else if pri1 \<noteq> [] then hd pri1
                               else CLIENT_INVALID)
               in if \<not> (t_choice \<noteq> CLIENT_INVALID) then Inl AssertionFailure
                  else Inr (t_choice,
                         m\<lparr>m_num_clients :=
                              (m_num_clients m)[nat t_choice := m_num_clients m ! nat t_choice + 1],
                           m_n := m_n m + 1\<rparr>))"

definition dealloc_type :: "'p ClientManager \<Rightarrow> ClientType \<Rightarrow> fault + 'p ClientManager" where
  "dealloc_type m t =
     (if \<not> (t \<ge> 0 \<and> t < int (length (m_num_clients m))) then Inl AssertionFailure
      else Inr (m\<lparr>m_num_clients := (m_num_clients m)[nat t := m_num_clients m ! nat t - 1],
                  m_n := m_n m - 1\<rparr>))"

subsubsection \<open>updateClients\<close>

text \<open>
  The loop of \<open>updateClients\<close> over the entries still to visit. It returns the registry
  (counters and timer readings), the entries as the loop leaves them, and the vectors
  \<open>newly_dead\<close> and \<open>newly_alive\<close>.
\<close>

fun updateClients_loop ::
  "'p ClientManager \<Rightarrow> (string \<times> 'p ClientInfo) list
     \<Rightarrow> fault + ('p ClientManager \<times> (string \<times> 'p ClientInfo) list \<times> string list \<times> string list)" where
  "updateClients_loop m [] = Inr (m, [], [], [])"
| "updateClients_loop m ((ident, c) # rest) =
     (let (status, c1, k1) = updateActive (m_timer m) (m_timer_calls m) c;
          m1 = m\<lparr>m_timer_calls := k1\<rparr>
      in if status = ALIVE2DEAD then
           (case dealloc_type m1 (m_type c1) of
              Inl e \<Rightarrow> Inl e
            | Inr m2 \<Rightarrow>
                (case updateClients_loop m2 rest of
                   Inl e \<Rightarrow> Inl e
                 | Inr (m3, rest', newly_dead, newly_alive) \<Rightarrow>
                     Inr (m3, (ident, c1) # rest', ident # newly_dead, newly_alive)))
         else if status = DEAD2ALIVE then
           (case alloc_type m1 of
              Inl e \<Rightarrow> Inl e
            | Inr (t, m2) \<Rightarrow>
                (case updateClients_loop m2 rest of
                   Inl e \<Rightarrow> Inl e
                 | Inr (m3, rest', newly_dead, newly_alive) \<Rightarrow>
                     Inr (m3, (ident, set_type c1 t) # rest', newly_dead, ident # newly_alive)))
         else
           (case updateClients_loop m1 rest of
              Inl e \<Rightarrow> Inl e
            | Inr (m3, rest', newly_dead, newly_alive) \<Rightarrow>
                Inr (m3, (ident, c1) # rest', newly_dead, newly_alive)))"

text \<open>
  \<open>updateClients\<close>. When a record changed, the report printed to \<open>std::cout\<close> reads the
  timer once more; the text printed is not modelled.
\<close>

definition updateClients :: "'p ClientManager \<Rightarrow> fault + 'p ClientManager" where
  "updateClients m =
     (case updateClients_loop m (m_clients m) of
        Inl e \<Rightarrow> Inl e
      | Inr (m1, cs, newly_dead, newly_alive) \<Rightarrow>
          let m2 = m1\<lparr>m_clients := cs\<rparr>
          in if newly_dead \<noteq> [] \<or> newly_alive \<noteq> [] then Inr (snd (getCurrTimeStamp m2))
             else Inr m2)"

subsubsection \<open>The entry points\<close>

text \<open>
  \<open>_getClient\<close>: the record of \<open>identity\<close>, created and given a type when the identity
  is new. The C++ returns a reference into the map; here the registry is returned, and
  the record is the entry of \<open>identity\<close> in it (there is one: see
  \<open>getClient_impl_stamps\<close> below, and the sweep keeps every entry).
\<close>

definition getClient_impl ::
  "'p ThreadState \<Rightarrow> 'p ClientManager \<Rightarrow> string \<Rightarrow> fault + 'p ClientManager" where
  "getClient_impl ts0 m ident =
     (case map_of (m_clients m) ident of
        Some c \<Rightarrow> Inr m
      | None \<Rightarrow>
          let (e, k1) = ClientInfo_init (m_timer m) (m_timer_calls m) ts0 ident
                          (max_num_threads (m_options m)) (client_max_delay_sec (m_options m));
              m1 = m\<lparr>m_timer_calls := k1\<rparr>
          in (case alloc_type m1 of
                Inl f \<Rightarrow> Inl f
              | Inr (t, m2) \<Rightarrow>
                  Inr (m2\<lparr>m_clients :=
                            arrange (m_order m) (m_clients m @ [(ident, set_type e t)])\<rparr>)))"

definition getClient ::
  "'p ThreadState \<Rightarrow> 'p ClientManager \<Rightarrow> string \<Rightarrow> fault + ('p ClientInfo \<times> 'p ClientManager)" where
  "getClient ts0 m ident =
     (case getClient_impl ts0 m ident of
        Inl f \<Rightarrow> Inl f
      | Inr m1 \<Rightarrow> Inr (the (map_of (m_clients m1) ident), m1))"

text \<open>
  The loop \<open>for (const auto& s : states) info.stateUpdate(s.second)\<close> of \<open>updateStates\<close>.
  \<open>states\<close> is the caller's \<open>unordered_map<int, ThreadState>\<close>, as the list of its
  (key, value) pairs in the order of the iteration.
\<close>

fun updateStates_loop ::
  "(nat \<Rightarrow> uint64) \<Rightarrow> nat \<Rightarrow> 'p ClientInfo \<Rightarrow> (int \<times> 'p ThreadState) list
     \<Rightarrow> fault + ('p ClientInfo \<times> nat)" where
  "updateStates_loop tm k info [] = Inr (info, k)"
| "updateStates_loop tm k info (s # states) =
     (case stateUpdate tm k info (snd s) of
        Inl f \<Rightarrow> Inl f
      | Inr (info1, k1) \<Rightarrow> updateStates_loop tm k1 info1 states)"

definition updateStates ::
  "'p ThreadState \<Rightarrow> 'p ClientManager \<Rightarrow> string \<Rightarrow> (int \<times> 'p ThreadState) list
     \<Rightarrow> fault + ('p ClientInfo \<times> 'p ClientManager)" where
  "updateStates ts0 m ident states =
     (case getClient_impl ts0 m ident of
        Inl f \<Rightarrow> Inl f
      | Inr m1 \<Rightarrow>
          (case updateStates_loop (m_timer m1) (m_timer_calls m1)
                  (the (map_of (m_clients m1) ident)) states of
             Inl f \<Rightarrow> Inl f
           | Inr (info, k1) \<Rightarrow>
               (case updateClients
                       (m1\<lparr>m_timer_calls := k1,
                           m_clients := AList.update ident info (m_clients m1)\<rparr>) of
                  Inl f \<Rightarrow> Inl f
                | Inr m2 \<Rightarrow> Inr (the (map_of (m_clients m2) ident), m2))))"

subsection \<open>Sequences of operations\<close>

text \<open>The public operations that change the registry, and a run of them from a registry.\<close>

datatype 'p operation =
    UpdateStates string "(int \<times> 'p ThreadState) list"
  | GetClient string
  | SetClientTypeRatio "f32 list"

fun apply_operation ::
  "'p ThreadState \<Rightarrow> 'p ClientManager \<Rightarrow> 'p operation \<Rightarrow> fault + 'p ClientManager" where
  "apply_operation ts0 m (UpdateStates ident states) =
     (case updateStates ts0 m ident states of Inl f \<Rightarrow> Inl f | Inr (info, m1) \<Rightarrow> Inr m1)"
| "apply_operation ts0 m (GetClient ident) =
     (case getClient ts0 m ident of Inl f \<Rightarrow> Inl f | Inr (info, m1) \<Rightarrow> Inr m1)"
| "apply_operation ts0 m (SetClientTypeRatio ratio) = Inr (setClientTypeRatio m ratio)"

fun run_operations ::
  "'p ThreadState \<Rightarrow> 'p ClientManager \<Rightarrow> 'p operation list \<Rightarrow> fault + 'p ClientManager" where
  "run_operations ts0 m [] = Inr m"
| "run_operations ts0 m (x # xs) =
     (case apply_operation ts0 m x of Inl f \<Rightarrow> Inl f | Inr m1 \<Rightarrow> run_operations ts0 m1 xs)"

text \<open>
  Heartbeats ingested one after the other, with the type of the record that each
  \<open>updateStates\<close> returns.
\<close>

fun ingest ::
  "'p ThreadState \<Rightarrow> 'p ClientManager \<Rightarrow> (string \<times> (int \<times> 'p ThreadState) list) list
     \<Rightarrow> fault + (ClientType list \<times> 'p ClientManager)" where
  "ingest ts0 m [] = Inr ([], m)"
| "ingest ts0 m ((ident, states) # hs) =
     (case updateStates ts0 m ident states of
        Inl f \<Rightarrow> Inl f
      | Inr (info, m1) \<Rightarrow>
          (case ingest ts0 m1 hs of
             Inl f \<Rightarrow> Inl f
           | Inr (types, m2) \<Rightarrow> Inr (m_type info # types, m2)))"

subsection \<open>Properties of a registry\<close>

text \<open>The number of records whose cached flag \<open>m_active\<close> is true.\<close>

definition active_count :: "'p ClientManager \<Rightarrow> nat" where
  "active_count m = length (filter (\<lambda>e. m_active (snd e)) (m_clients m))"

text \<open>The three counts the registry is meant to keep equal.\<close>

definition counts :: "'p ClientManager \<Rightarrow> int \<times> int \<times> int" where
  "counts m = (m_n m, sum_list (m_num_clients m), int (active_count m))"

text \<open>A time source that never goes back, in the unsigned order of \<open>uint64_t\<close>.\<close>

definition non_decreasing :: "(nat \<Rightarrow> uint64) \<Rightarrow> bool" where
  "non_decreasing tm = (\<forall>i j. i \<le> j \<longrightarrow> tm i \<le> tm j)"

text \<open>
  \<open>stamps_le c c'\<close>: no timestamp of the record \<open>c\<close> is later than the same timestamp
  of \<open>c'\<close>, which has the same thread slots.
\<close>

definition stamps_le :: "'p ClientInfo \<Rightarrow> 'p ClientInfo \<Rightarrow> bool" where
  "stamps_le c c' =
     (m_last_update c \<le> m_last_update c' \<and>
      length (m_threads c') = length (m_threads c) \<and>
      (\<forall>i < length (m_threads c).
         m_last_state_update_ts (m_threads c ! i) \<le> m_last_state_update_ts (m_threads c' ! i)))"

text \<open>\<open>stamps_upto tm k c\<close>: every timestamp of \<open>c\<close> is at most the k-th reading.\<close>

definition stamps_upto :: "(nat \<Rightarrow> uint64) \<Rightarrow> nat \<Rightarrow> 'p ClientInfo \<Rightarrow> bool" where
  "stamps_upto tm k c =
     (m_last_update c \<le> tm k \<and>
      (\<forall>st \<in> set (m_threads c). m_last_state_update_ts st \<le> tm k))"

text \<open>Two map entries with the same identity and the same timestamps.\<close>

definition same_stamps :: "string \<times> 'p ClientInfo \<Rightarrow> string \<times> 'p ClientInfo \<Rightarrow> bool" where
  "same_stamps e e' =
     (fst e' = fst e \<and> m_last_update (snd e') = m_last_update (snd e) \<and>
      m_threads (snd e') = m_threads (snd e))"

text \<open>Every timestamp in the registry is at most the next reading of the timer.\<close>

definition registry_stamps_upto :: "'p ClientManager \<Rightarrow> bool" where
  "registry_stamps_upto m =
     (\<forall>e \<in> set (m_clients m). stamps_upto (m_timer m) (m_timer_calls m) (snd e))"

text \<open>
  \<open>registry_le m m'\<close>: every record of \<open>m\<close> is still in \<open>m'\<close> under the same identity,
  with no timestamp earlier than in \<open>m\<close>.
\<close>

definition registry_le :: "'p ClientManager \<Rightarrow> 'p ClientManager \<Rightarrow> bool" where
  "registry_le m m' =
     (\<forall>ident c. map_of (m_clients m) ident = Some c \<longrightarrow>
        (\<exists>c'. map_of (m_clients m') ident = Some c' \<and> stamps_le c c'))"

subsection \<open>Example inputs\<close>

text \<open>A timer that answers 0 three times and 10 from then on.\<close>

definition example_timer :: "nat \<Rightarrow> uint64" where
  "example_timer k = (if k < 3 then 0 else 10)"

definition example_options :: "f32 list \<Rightarrow> int list \<Rightarrow> ClientManagerOptions" where
  "example_options ratios limits =
     \<lparr>client_type_ratios = ratios, client_type_limits = limits,
      max_num_threads = 1, client_max_delay_sec = 300\<rparr>"

text \<open>A registry without records whose counters are \<open>nums\<close> and \<open>n\<close>.\<close>

definition example_registry :: "f32 list \<Rightarrow> int list \<Rightarrow> int list \<Rightarrow> int \<Rightarrow> nat ClientManager" where
  "example_registry ratios limits nums n =
     \<lparr>m_options = example_options ratios limits, m_timer = (\<lambda>k. 0), m_timer_calls = 0,
      m_clients = [], m_order = id, m_num_clients = nums, m_n = n\<rparr>"

text \<open>A new registry with two types, read with \<open>example_timer\<close>.\<close>

definition example_new_registry :: "nat ClientManager" where
  "example_new_registry =
     \<lparr>m_options = example_options [Finite (1 / 2), Finite (1 / 2)] [100, 100],
      m_timer = example_timer, m_timer_calls = 0, m_clients = [], m_order = id,
      m_num_clients = [0, 0], m_n = 0\<rparr>"

definition example_ts0 :: "nat ThreadState" where
  "example_ts0 = \<lparr>thread_id = - 1, payload = 0\<rparr>"

text \<open>A heartbeat: thread 0 reports a state.\<close>

definition example_states :: "nat \<Rightarrow> (int \<times> nat ThreadState) list" where
  "example_states p = [(0, \<lparr>thread_id = 0, payload = p\<rparr>)]"

text \<open>A record with two thread slots, last active at \<open>t\<close>.\<close>

definition example_record :: "bool \<Rightarrow> uint64 \<Rightarrow> nat ClientInfo" where
  "example_record a t =
     \<lparr>m_identity = ''a'', m_type = 0, m_max_delay_sec = 300, m_seq = 0, m_active = a,
      m_last_update = t,
      m_threads = [\<lparr>m_last_state = example_ts0, m_last_state_update_ts = t\<rparr>,
                   \<lparr>m_last_state = example_ts0, m_last_state_update_ts = t\<rparr>]\<rparr>"

text \<open>A timer that always answers 0.\<close>

definition example_timer_0 :: "nat \<Rightarrow> uint64" where
  "example_timer_0 k = 0"

text \<open>A timer that answers 0 three times and 300 from then on.\<close>

definition example_timer_300 :: "nat \<Rightarrow> uint64" where
  "example_timer_300 k = (if k < 3 then 0 else 300)"

text \<open>The registry that the constructor returns, iterated in insertion order.\<close>

definition example_fresh :: "f32 list \<Rightarrow> int list \<Rightarrow> (nat \<Rightarrow> uint64) \<Rightarrow> nat ClientManager" where
  "example_fresh ratios limits tm =
     \<lparr>m_options = example_options ratios limits, m_timer = tm, m_timer_calls = 0,
      m_clients = [], m_order = id, m_num_clients = replicate (length ratios) 0, m_n = 0\<rparr>"

text \<open>
  The registry after two heartbeats of client \<open>a\<close>, neither reporting a thread state:
  the first at time 0 creates the record, the second at time 300 finds it timed out.
\<close>

definition example_reached :: "f32 list \<Rightarrow> int list \<Rightarrow> nat ClientManager" where
  "example_reached ratios limits =
     snd (projr (ingest example_ts0 (example_fresh ratios limits example_timer_300)
                   [(''a'', []), (''a'', [])]))"

text \<open>A new registry whose records have three thread slots.\<close>

definition example_wide_registry :: "nat ClientManager" where
  "example_wide_registry =
     \<lparr>m_options = \<lparr>client_type_ratios = [Finite (1 / 2), Finite (1 / 2)],
                    client_type_limits = [100, 100], max_num_threads = 3,
                    client_max_delay_sec = 300\<rparr>,
      m_timer = example_timer, m_timer_calls = 0, m_clients = [], m_order = id,
      m_num_clients = [0, 0], m_n = 0\<rparr>"

section \<open>Theorems\<close>

subsection \<open>Rounding to binary32\<close>

text \<open>
  Values of the arithmetic above: integers beyond \<open>2^24\<close> round to even mantissas, the
  quotient \<open>1 / 3\<close> rounds up to \<open>11184811 / 2^25\<close>, \<open>1 / 2\<close> is exact, half of the least
  subnormal rounds to zero, and the midpoint above the greatest finite value overflows.
\<close>

lemma round_f32_examples:
  "f32_of_int 16777217 = Finite 16777216"
  "f32_of_int 16777219 = Finite 16777220"
  "f32_div (f32_of_int 1) (f32_of_int 3) = Finite (11184811 / 33554432)"
  "f32_div (f32_of_int 1) (f32_of_int 2) = Finite (1 / 2)"
  "round_f32 (pow2 (- 150)) = Finite 0"
  "round_f32 (pow2 128 - pow2 103) = PInf"
  by code_simp+

subsection \<open>The per-thread slot\<close>

text \<open>
  C6. \<open>StateUpdate\<close> reports a change exactly when the incoming \<open>ThreadState\<close> differs
  from the stored one. When it differs, the slot stores the new value and the current
  reading of the timer; when it is equal, the slot is unchanged and the timer is not
  read. Updating once more with the same value reports no change and leaves the slot,
  timestamp included, as it is.
\<close>

theorem StateUpdate_changed_iff_differs:
  "(case StateUpdate tm k st ts of (changed, st1, k1) \<Rightarrow>
      changed = (m_last_state st \<noteq> ts) \<and>
      (changed \<longrightarrow> st1 = st\<lparr>m_last_state := ts, m_last_state_update_ts := tm k\<rparr> \<and> k1 = Suc k) \<and>
      (\<not> changed \<longrightarrow> st1 = st \<and> k1 = k) \<and>
      StateUpdate tm k1 st1 ts = (False, st1, k1))"
  by (simp add: StateUpdate_def)

theorem StateUpdate_changed_iff_differs_witness:
  "StateUpdate (\<lambda>i. 7) 0 \<lparr>m_last_state = \<lparr>thread_id = 0, payload = (0::nat)\<rparr>, m_last_state_update_ts = 3\<rparr>
       \<lparr>thread_id = 0, payload = 1\<rparr>
     = (True, \<lparr>m_last_state = \<lparr>thread_id = 0, payload = 1\<rparr>, m_last_state_update_ts = 7\<rparr>, 1)
   \<and> StateUpdate (\<lambda>i. 9) 1 \<lparr>m_last_state = \<lparr>thread_id = 0, payload = (1::nat)\<rparr>, m_last_state_update_ts = 7\<rparr>
       \<lparr>thread_id = 0, payload = 1\<rparr>
     = (False, \<lparr>m_last_state = \<lparr>thread_id = 0, payload = 1\<rparr>, m_last_state_update_ts = 7\<rparr>, 1)"
  using StateUpdate_changed_iff_differs [where tm = "\<lambda>i. 7" and k = 0
      and st = "\<lparr>m_last_state = \<lparr>thread_id = 0, payload = (0::nat)\<rparr>, m_last_state_update_ts = 3\<rparr>"
      and ts = "\<lparr>thread_id = 0, payload = 1\<rparr>"]
    StateUpdate_changed_iff_differs [where tm = "\<lambda>i. 9" and k = 1
      and st = "\<lparr>m_last_state = \<lparr>thread_id = 0, payload = (1::nat)\<rparr>, m_last_state_update_ts = 7\<rparr>"
      and ts = "\<lparr>thread_id = 0, payload = 1\<rparr>"]
  by (simp add: StateUpdate_def)

subsection \<open>The record\<close>

text \<open>
  C8. \<open>ClientInfo::stateUpdate\<close> with a thread id outside \<open>[0, numThreads)\<close> is the
  assertion failure, and no slot is read or written (there is no resulting record).
  With a thread id inside the range it does not fault: it returns a record with the
  same number of slots.
\<close>

theorem stateUpdate_faults_iff_out_of_range:
  "(\<not> (0 \<le> thread_id ts \<and> thread_id ts < int (length (m_threads c)))
      \<longrightarrow> stateUpdate tm k c ts = Inl AssertionFailure) \<and>
   (0 \<le> thread_id ts \<and> thread_id ts < int (length (m_threads c))
      \<longrightarrow> (\<exists>c1 k1. stateUpdate tm k c ts = Inr (c1, k1) \<and>
                   length (m_threads c1) = length (m_threads c)))"
  by (auto simp add: stateUpdate_def Let_def split: prod.splits)

theorem stateUpdate_faults_iff_out_of_range_witness:
  "stateUpdate (\<lambda>k. 0) 0 (example_record True 0) \<lparr>thread_id = 2, payload = 5\<rparr> = Inl AssertionFailure \<and>
   stateUpdate (\<lambda>k. 0) 0 (example_record True 0) \<lparr>thread_id = - 1, payload = 5\<rparr> = Inl AssertionFailure \<and>
   (\<exists>c1 k1. stateUpdate (\<lambda>k. 0) 0 (example_record True 0) \<lparr>thread_id = 0, payload = 5\<rparr> = Inr (c1, k1) \<and>
       length (m_threads c1) = length (m_threads (example_record True 0)))"
  using stateUpdate_faults_iff_out_of_range [where tm = "\<lambda>k. 0" and k = 0
      and c = "example_record True 0" and ts = "\<lparr>thread_id = 2, payload = 5\<rparr>"]
    stateUpdate_faults_iff_out_of_range [where tm = "\<lambda>k. 0" and k = 0
      and c = "example_record True 0" and ts = "\<lparr>thread_id = - 1, payload = 5\<rparr>"]
    stateUpdate_faults_iff_out_of_range [where tm = "\<lambda>k. 0" and k = 0
      and c = "example_record True 0" and ts = "\<lparr>thread_id = 0, payload = 5\<rparr>"]
  by (simp add: example_record_def)

text \<open>
  C4. A record with timeout 300 whose last activity is at \<open>T\<close>: \<open>updateActive\<close> at
  \<open>T + 299\<close> answers \<open>ALIVE\<close> and leaves the record; at \<open>T + 300\<close> it answers
  \<open>ALIVE2DEAD\<close> and clears the flag; once the flag is cleared, at any \<open>T + d\<close> with
  \<open>d \<ge> 300\<close> it answers \<open>DEAD\<close> and leaves the record. When \<open>stateUpdate\<close> then changes
  a thread slot, it sets the last activity to its own reading of the timer, and the next
  \<open>updateActive\<close>, whose reading is less than 300 later, answers \<open>DEAD2ALIVE\<close>
  and sets the flag. In general the answer is fixed by the cached flag and by
  \<open>now - last_update < max_delay_sec\<close> (in \<open>uint64_t\<close> arithmetic), and the flag becomes
  that predicate.
\<close>

theorem updateActive_transitions:
  "(m_max_delay_sec c = 300 \<and> m_active c \<and> tm k = m_last_update c + 299
      \<longrightarrow> updateActive tm k c = (ALIVE, c, Suc k)) \<and>
   (m_max_delay_sec c = 300 \<and> m_active c \<and> tm k = m_last_update c + 300
      \<longrightarrow> updateActive tm k c = (ALIVE2DEAD, c\<lparr>m_active := False\<rparr>, Suc k)) \<and>
   (m_max_delay_sec c = 300 \<and> \<not> m_active c \<and> 300 \<le> d \<and> tm k = m_last_update c + d
      \<longrightarrow> updateActive tm k c = (DEAD, c, Suc k)) \<and>
   (m_max_delay_sec c = 300 \<and> \<not> m_active c \<and>
    thread_id ts \<ge> 0 \<and> thread_id ts < int (length (m_threads c)) \<and>
    m_last_state (m_threads c ! nat (thread_id ts)) \<noteq> ts \<and>
    tm (Suc (Suc k)) - tm (Suc k) < 300
      \<longrightarrow> (\<exists>c1. stateUpdate tm k c ts = Inr (c1, Suc (Suc k)) \<and>
                m_last_update c1 = tm (Suc k) \<and> \<not> m_active c1 \<and>
                updateActive tm (Suc (Suc k)) c1 =
                  (DEAD2ALIVE, c1\<lparr>m_active := True\<rparr>, Suc (Suc (Suc k))))) \<and>
   updateActive tm k c =
     (let curr_active = (tm k - m_last_update c < m_max_delay_sec c)
      in (if m_active c then (if curr_active then ALIVE else ALIVE2DEAD)
          else (if curr_active then DEAD2ALIVE else DEAD),
          c\<lparr>m_active := curr_active\<rparr>, Suc k))"
  apply (intro conjI impI)
      apply (simp add: updateActive_def)
     apply (simp add: updateActive_def)
    apply (simp add: updateActive_def not_less)
   apply (simp add: updateActive_def stateUpdate_def StateUpdate_def Let_def)
  apply (cases "m_active c"; simp add: updateActive_def Let_def)
  done

theorem updateActive_transitions_witness:
  "updateActive (\<lambda>k. 1299) 0 (example_record True 1000) = (ALIVE, example_record True 1000, Suc 0) \<and>
   updateActive (\<lambda>k. 1300) 0 (example_record True 1000) = (ALIVE2DEAD, example_record False 1000, Suc 0) \<and>
   updateActive (\<lambda>k. 1500) 0 (example_record False 1000) = (DEAD, example_record False 1000, Suc 0) \<and>
   (\<exists>c1. stateUpdate (\<lambda>k. 2000) 0 (example_record False 1000) \<lparr>thread_id = 0, payload = 1\<rparr>
           = Inr (c1, Suc (Suc 0)) \<and>
         m_last_update c1 = 2000 \<and> \<not> m_active c1 \<and>
         updateActive (\<lambda>k. 2000) (Suc (Suc 0)) c1
           = (DEAD2ALIVE, c1\<lparr>m_active := True\<rparr>, Suc (Suc (Suc 0))))"
proof (intro conjI)
  show "updateActive (\<lambda>k. 1299) 0 (example_record True 1000) = (ALIVE, example_record True 1000, Suc 0)"
    using updateActive_transitions [where tm = "\<lambda>k. 1299" and k = 0 and c = "example_record True 1000"]
    by (simp add: example_record_def)
  show "updateActive (\<lambda>k. 1300) 0 (example_record True 1000)
          = (ALIVE2DEAD, example_record False 1000, Suc 0)"
    using updateActive_transitions [where tm = "\<lambda>k. 1300" and k = 0 and c = "example_record True 1000"]
    by (simp add: example_record_def)
  show "updateActive (\<lambda>k. 1500) 0 (example_record False 1000) = (DEAD, example_record False 1000, Suc 0)"
    using updateActive_transitions [where tm = "\<lambda>k. 1500" and k = 0
        and c = "example_record False 1000" and d = 500]
    by (simp add: example_record_def)
  show "\<exists>c1. stateUpdate (\<lambda>k. 2000) 0 (example_record False 1000) \<lparr>thread_id = 0, payload = 1\<rparr>
           = Inr (c1, Suc (Suc 0)) \<and>
         m_last_update c1 = 2000 \<and> \<not> m_active c1 \<and>
         updateActive (\<lambda>k. 2000) (Suc (Suc 0)) c1
           = (DEAD2ALIVE, c1\<lparr>m_active := True\<rparr>, Suc (Suc (Suc 0)))"
    using updateActive_transitions [where tm = "\<lambda>k. 2000" and k = 0
        and c = "example_record False 1000" and ts = "\<lparr>thread_id = 0, payload = 1\<rparr>"]
    by (simp add: example_record_def example_ts0_def)
qed

subsection \<open>The allocation policy\<close>

lemma alloc_type_loop_filter:
  "alloc_type_loop m ts pri0 pri1 = Inr (q0, q1) \<Longrightarrow>
     q0 = pri0 @ map int (filter (under_ratio m) ts) \<and>
     q1 = pri1 @ map int (filter (under_limit m) ts)"
proof (induction ts arbitrary: pri0 pri1)
  case Nil
  then show ?case by simp
next
  case (Cons t ts)
  from Cons.prems
  have "alloc_type_loop m ts (if under_ratio m t then pri0 @ [int t] else pri0)
          (if under_limit m t then pri1 @ [int t] else pri1) = Inr (q0, q1)"
    by (simp add: Let_def split: if_splits)
  from Cons.IH [OF this] show ?case by simp
qed

lemma alloc_type_loop_total:
  "\<forall>t\<in>set ts. t < length (client_type_limits (m_options m)) \<and>
       t < length (client_type_ratios (m_options m)) \<Longrightarrow>
     \<exists>q0 q1. alloc_type_loop m ts pri0 pri1 = Inr (q0, q1)"
  by (induction ts arbitrary: pri0 pri1) (auto simp add: Let_def)

lemma filter_upt_first:
  assumes "t < T" "P t" "\<forall>s<t. \<not> P s"
  shows "filter P [0..<T] = t # filter P [Suc t..<T]"
proof -
  have "[0..<T] = [0..<t] @ t # [Suc t..<T]"
    using assms(1) by (metis less_imp_le_nat upt_add_eq_append upt_conv_Cons le0 le_add_diff_inverse)
  moreover have "filter P [0..<t] = []"
    using assms(3) by (auto simp add: filter_empty_conv)
  ultimately show ?thesis using assms(2) by simp
qed

lemma filter_upt_none: "\<forall>s<T. \<not> P s \<Longrightarrow> filter P [0..<T] = []"
  by (auto simp add: filter_empty_conv)

text \<open>
  The result of \<open>alloc_type\<close> when the counters are not zero and the three vectors have
  one entry per type: the loop's vectors are the types under their ratio and the types
  under their limit, in ascending order.
\<close>

lemma alloc_type_nonzero:
  assumes "m_n m \<noteq> 0"
    and "length (client_type_ratios (m_options m)) = length (m_num_clients m)"
    and "length (client_type_limits (m_options m)) = length (m_num_clients m)"
  shows "alloc_type m =
     (let pri0 = map int (filter (under_ratio m) [0 ..< length (m_num_clients m)]);
          pri1 = map int (filter (under_limit m) [0 ..< length (m_num_clients m)]);
          t_choice = (if pri0 \<noteq> [] then hd pri0 else if pri1 \<noteq> [] then hd pri1 else CLIENT_INVALID)
      in if t_choice = CLIENT_INVALID then Inl AssertionFailure
         else Inr (t_choice,
                m\<lparr>m_num_clients :=
                     (m_num_clients m)[nat t_choice := m_num_clients m ! nat t_choice + 1],
                  m_n := m_n m + 1\<rparr>))"
proof -
  have "\<forall>t\<in>set [0 ..< length (m_num_clients m)].
          t < length (client_type_limits (m_options m)) \<and>
          t < length (client_type_ratios (m_options m))"
    using assms(2,3) by simp
  from alloc_type_loop_total [OF this, of "[]" "[]"]
  obtain q0 q1 where q: "alloc_type_loop m [0 ..< length (m_num_clients m)] [] [] = Inr (q0, q1)"
    by blast
  from alloc_type_loop_filter [OF q]
  have "q0 = map int (filter (under_ratio m) [0 ..< length (m_num_clients m)])"
    and "q1 = map int (filter (under_limit m) [0 ..< length (m_num_clients m)])"
    by simp_all
  with q assms(1) show ?thesis
    by (simp add: alloc_type_def Let_def)
qed

text \<open>
  C3. With one ratio and one limit per type: \<open>alloc_type\<close> returns type 0 (and changes
  nothing) when \<open>m_n\<close> is 0. Otherwise it returns the lowest type \<open>t\<close> under its ratio,
  that is with \<open>static_cast<float>(num_clients_[t]) / n_ < ratios[t]\<close> in binary32
  arithmetic, when there is one; otherwise the lowest type \<open>t\<close> with
  \<open>num_clients_[t] < limits[t]\<close> when there is one; and when there is neither, it is the
  assertion failure and returns no type.
\<close>

theorem alloc_type_choice:
  assumes "length (client_type_ratios (m_options m)) = length (m_num_clients m)"
    and "length (client_type_limits (m_options m)) = length (m_num_clients m)"
  shows
  "(m_n m = 0 \<longrightarrow> alloc_type m = Inr (0, m)) \<and>
   (m_n m \<noteq> 0 \<and> t < length (m_num_clients m) \<and> under_ratio m t \<and> (\<forall>s<t. \<not> under_ratio m s)
      \<longrightarrow> (\<exists>m1. alloc_type m = Inr (int t, m1))) \<and>
   (m_n m \<noteq> 0 \<and> (\<forall>s<length (m_num_clients m). \<not> under_ratio m s) \<and>
    t < length (m_num_clients m) \<and> under_limit m t \<and> (\<forall>s<t. \<not> under_limit m s)
      \<longrightarrow> (\<exists>m1. alloc_type m = Inr (int t, m1))) \<and>
   (m_n m \<noteq> 0 \<and> (\<forall>s<length (m_num_clients m). \<not> under_ratio m s \<and> \<not> under_limit m s)
      \<longrightarrow> alloc_type m = Inl AssertionFailure)"
proof (intro conjI impI)
  assume "m_n m = 0"
  then show "alloc_type m = Inr (0, m)"
    by (simp add: alloc_type_def)
next
  assume a: "m_n m \<noteq> 0 \<and> t < length (m_num_clients m) \<and> under_ratio m t \<and>
    (\<forall>s<t. \<not> under_ratio m s)"
  then have "filter (under_ratio m) [0 ..< length (m_num_clients m)]
      = t # filter (under_ratio m) [Suc t ..< length (m_num_clients m)]"
    by (intro filter_upt_first) simp_all
  with a show "\<exists>m1. alloc_type m = Inr (int t, m1)"
    by (simp add: alloc_type_nonzero [OF _ assms] Let_def CLIENT_INVALID_def)
next
  assume a: "m_n m \<noteq> 0 \<and> (\<forall>s<length (m_num_clients m). \<not> under_ratio m s) \<and>
    t < length (m_num_clients m) \<and> under_limit m t \<and> (\<forall>s<t. \<not> under_limit m s)"
  then have "filter (under_ratio m) [0 ..< length (m_num_clients m)] = []"
    by (intro filter_upt_none) simp
  moreover from a have "filter (under_limit m) [0 ..< length (m_num_clients m)]
      = t # filter (under_limit m) [Suc t ..< length (m_num_clients m)]"
    by (intro filter_upt_first) simp_all
  ultimately show "\<exists>m1. alloc_type m = Inr (int t, m1)"
    using a by (simp add: alloc_type_nonzero [OF _ assms] Let_def CLIENT_INVALID_def)
next
  assume a: "m_n m \<noteq> 0 \<and>
    (\<forall>s<length (m_num_clients m). \<not> under_ratio m s \<and> \<not> under_limit m s)"
  then have "filter (under_ratio m) [0 ..< length (m_num_clients m)] = []"
    and "filter (under_limit m) [0 ..< length (m_num_clients m)] = []"
    by (simp_all add: filter_upt_none)
  with a show "alloc_type m = Inl AssertionFailure"
    by (simp add: alloc_type_nonzero [OF _ assms] Let_def)
qed

lemma example_registry_sizes:
  "length (client_type_ratios (m_options (example_registry [r0, r1] [l0, l1] [c0, c1] n)))
     = length (m_num_clients (example_registry [r0, r1] [l0, l1] [c0, c1] n))"
  "length (client_type_limits (m_options (example_registry [r0, r1] [l0, l1] [c0, c1] n)))
     = length (m_num_clients (example_registry [r0, r1] [l0, l1] [c0, c1] n))"
  "length (m_num_clients (example_registry [r0, r1] [l0, l1] [c0, c1] n)) = Suc (Suc 0)"
  "m_n (example_registry rs ls cs n) = n"
  by (simp_all add: example_registry_def example_options_def)

lemma example_under_ratio:
  "\<not> under_ratio (example_registry [Finite (1 / 2), Finite (1 / 2)] [100, 100] [1, 0] 1) 0"
  "under_ratio (example_registry [Finite (1 / 2), Finite (1 / 2)] [100, 100] [1, 0] 1) (Suc 0)"
  "\<not> under_ratio (example_registry [Finite (1 / 2), Finite (1 / 2)] [100, 100] [1, 1] 2) 0"
  "\<not> under_ratio (example_registry [Finite (1 / 2), Finite (1 / 2)] [100, 100] [1, 1] 2) (Suc 0)"
  "\<not> under_ratio (example_registry [Finite (1 / 2), Finite (1 / 2)] [1, 1] [1, 1] 2) 0"
  "\<not> under_ratio (example_registry [Finite (1 / 2), Finite (1 / 2)] [1, 1] [1, 1] 2) (Suc 0)"
  by code_simp+

lemma example_under_limit:
  "under_limit (example_registry [Finite (1 / 2), Finite (1 / 2)] [100, 100] [1, 1] 2) 0"
  "\<not> under_limit (example_registry [Finite (1 / 2), Finite (1 / 2)] [1, 1] [1, 1] 2) 0"
  "\<not> under_limit (example_registry [Finite (1 / 2), Finite (1 / 2)] [1, 1] [1, 1] 2) (Suc 0)"
  by code_simp+

theorem alloc_type_choice_witness:
  "alloc_type (example_registry [Finite (1 / 2), Finite (1 / 2)] [100, 100] [0, 0] 0)
     = Inr (0, example_registry [Finite (1 / 2), Finite (1 / 2)] [100, 100] [0, 0] 0) \<and>
   (\<exists>m1. alloc_type (example_registry [Finite (1 / 2), Finite (1 / 2)] [100, 100] [1, 0] 1)
     = Inr (1, m1)) \<and>
   (\<exists>m1. alloc_type (example_registry [Finite (1 / 2), Finite (1 / 2)] [100, 100] [1, 1] 2)
     = Inr (0, m1)) \<and>
   alloc_type (example_registry [Finite (1 / 2), Finite (1 / 2)] [1, 1] [1, 1] 2)
     = Inl AssertionFailure"
proof (intro conjI)
  show "alloc_type (example_registry [Finite (1 / 2), Finite (1 / 2)] [100, 100] [0, 0] 0)
     = Inr (0, example_registry [Finite (1 / 2), Finite (1 / 2)] [100, 100] [0, 0] 0)"
    using alloc_type_choice [OF example_registry_sizes(1,2),
        of "Finite (1 / 2)" "Finite (1 / 2)" 100 100 0 0 0]
    by (simp add: example_registry_sizes)
  show "\<exists>m1. alloc_type (example_registry [Finite (1 / 2), Finite (1 / 2)] [100, 100] [1, 0] 1)
     = Inr (1, m1)"
    using alloc_type_choice [OF example_registry_sizes(1,2),
        of "Finite (1 / 2)" "Finite (1 / 2)" 100 100 1 0 1 "Suc 0"]
    by (simp add: example_registry_sizes example_under_ratio)
  show "\<exists>m1. alloc_type (example_registry [Finite (1 / 2), Finite (1 / 2)] [100, 100] [1, 1] 2)
     = Inr (0, m1)"
    using alloc_type_choice [OF example_registry_sizes(1,2),
        of "Finite (1 / 2)" "Finite (1 / 2)" 100 100 1 1 2 0]
    by (simp add: example_registry_sizes example_under_ratio example_under_limit less_Suc_eq)
  show "alloc_type (example_registry [Finite (1 / 2), Finite (1 / 2)] [1, 1] [1, 1] 2)
     = Inl AssertionFailure"
    using alloc_type_choice [OF example_registry_sizes(1,2),
        of "Finite (1 / 2)" "Finite (1 / 2)" 1 1 1 1 2]
    by (simp add: example_registry_sizes example_under_ratio example_under_limit less_Suc_eq)
qed

text \<open>
  Registries reached by heartbeats, for the statements below. The run of
  \<open>example_reached\<close> does not fault, so \<open>example_reached\<close> is the registry it ends in.
\<close>

lemma example_reached_run:
  "ingest example_ts0 (example_fresh [Finite (1 / 2), Finite (1 / 2)] [100, 0] example_timer_300)
     [(''a'', []), (''a'', [])]
   = Inr ([0, 0], example_reached [Finite (1 / 2), Finite (1 / 2)] [100, 0])"
  "ingest example_ts0 (example_fresh [Finite 1, Finite 0] [1, 100] example_timer_300)
     [(''a'', []), (''a'', [])]
   = Inr ([0, 0], example_reached [Finite 1, Finite 0] [1, 100])"
proof -
  have run: "ingest example_ts0 (example_fresh rs ls example_timer_300) [(''a'', []), (''a'', [])]
      = Inr ([0, 0], example_reached rs ls)"
    if "\<not> isl (ingest example_ts0 (example_fresh rs ls example_timer_300) [(''a'', []), (''a'', [])])"
      and "fst (projr (ingest example_ts0 (example_fresh rs ls example_timer_300)
             [(''a'', []), (''a'', [])])) = [0, 0]"
    for rs ls
    using that
    by (cases "ingest example_ts0 (example_fresh rs ls example_timer_300) [(''a'', []), (''a'', [])]")
      (auto simp add: example_reached_def)
  show "ingest example_ts0 (example_fresh [Finite (1 / 2), Finite (1 / 2)] [100, 0] example_timer_300)
     [(''a'', []), (''a'', [])]
   = Inr ([0, 0], example_reached [Finite (1 / 2), Finite (1 / 2)] [100, 0])"
    by (rule run) code_simp+
  show "ingest example_ts0 (example_fresh [Finite 1, Finite 0] [1, 100] example_timer_300)
     [(''a'', []), (''a'', [])]
   = Inr ([0, 0], example_reached [Finite 1, Finite 0] [1, 100])"
    by (rule run) code_simp+
qed

lemma example_reached_facts:
  "length (client_type_ratios (m_options (example_reached [Finite (1 / 2), Finite (1 / 2)] [100, 0])))
     = length (m_num_clients (example_reached [Finite (1 / 2), Finite (1 / 2)] [100, 0]))"
  "length (client_type_limits (m_options (example_reached [Finite (1 / 2), Finite (1 / 2)] [100, 0])))
     = length (m_num_clients (example_reached [Finite (1 / 2), Finite (1 / 2)] [100, 0]))"
  "m_n (example_reached [Finite (1 / 2), Finite (1 / 2)] [100, 0]) = - 1"
  "m_num_clients (example_reached [Finite (1 / 2), Finite (1 / 2)] [100, 0]) = [- 1, 0]"
  "client_type_limits (m_options (example_reached [Finite (1 / 2), Finite (1 / 2)] [100, 0])) = [100, 0]"
  "\<not> under_ratio (example_reached [Finite (1 / 2), Finite (1 / 2)] [100, 0]) 0"
  "under_ratio (example_reached [Finite (1 / 2), Finite (1 / 2)] [100, 0]) (Suc 0)"
  "\<not> under_limit (example_reached [Finite (1 / 2), Finite (1 / 2)] [100, 0]) (Suc 0)"
  "length (client_type_ratios (m_options (example_reached [Finite 1, Finite 0] [1, 100])))
     = length (m_num_clients (example_reached [Finite 1, Finite 0] [1, 100]))"
  "length (client_type_limits (m_options (example_reached [Finite 1, Finite 0] [1, 100])))
     = length (m_num_clients (example_reached [Finite 1, Finite 0] [1, 100]))"
  "m_n (example_reached [Finite 1, Finite 0] [1, 100]) = - 1"
  "\<not> under_ratio (example_reached [Finite 1, Finite 0] [1, 100]) 0"
  "map_sum id fst (alloc_type (example_reached [Finite 1, Finite 0] [1, 100])) = Inr 0"
  by code_simp+

text \<open>
  C2, as stated, fails, in two ways.

  With total 0: a new registry with limits \<open>[0, 100]\<close> has no active record, so type 0
  has reached its limit (0 of 0); the first heartbeat of client \<open>a\<close> gets type 0.

  With a total that is not 0: a new registry with ratios \<open>[0.5, 0.5]\<close> and limits
  \<open>[100, 0]\<close> ingests a heartbeat of client \<open>a\<close> at time 0 and one at time 300, neither
  reporting a thread state, so that the second finds \<open>a\<close> timed out. The registry
  reached has \<open>m_n = - 1\<close> and counters \<open>[- 1, 0]\<close>: type 1 has reached its limit (0 of
  0) and is under its ratio (\<open>0 / - 1 < 0.5\<close>). \<open>alloc_type\<close> returns type 1 there, and
  the first heartbeat of client \<open>b\<close>, at time 300, gets type 1. (Every sweep of the run
  visits at most two records and at most one of them changes, and the timer answers the
  same within each call: the order of the sweep does not matter.)
\<close>

theorem alloc_type_chooses_type_at_limit:
  "ClientManager_init (example_options [Finite (1 / 2), Finite (1 / 2)] [0, 100]) example_timer_0 id
     = Inr (example_fresh [Finite (1 / 2), Finite (1 / 2)] [0, 100] example_timer_0) \<and>
   m_n (example_fresh [Finite (1 / 2), Finite (1 / 2)] [0, 100] example_timer_0) = 0 \<and>
   client_type_limits (m_options (example_fresh [Finite (1 / 2), Finite (1 / 2)] [0, 100] example_timer_0)) ! 0
     \<le> m_num_clients (example_fresh [Finite (1 / 2), Finite (1 / 2)] [0, 100] example_timer_0) ! 0 \<and>
   map_sum id fst (ingest example_ts0
       (example_fresh [Finite (1 / 2), Finite (1 / 2)] [0, 100] example_timer_0) [(''a'', [])])
     = Inr [0] \<and>
   ClientManager_init (example_options [Finite (1 / 2), Finite (1 / 2)] [100, 0]) example_timer_300 id
     = Inr (example_fresh [Finite (1 / 2), Finite (1 / 2)] [100, 0] example_timer_300) \<and>
   ingest example_ts0 (example_fresh [Finite (1 / 2), Finite (1 / 2)] [100, 0] example_timer_300)
       [(''a'', []), (''a'', [])]
     = Inr ([0, 0], example_reached [Finite (1 / 2), Finite (1 / 2)] [100, 0]) \<and>
   m_n (example_reached [Finite (1 / 2), Finite (1 / 2)] [100, 0]) = - 1 \<and>
   client_type_limits (m_options (example_reached [Finite (1 / 2), Finite (1 / 2)] [100, 0])) ! 1
     \<le> m_num_clients (example_reached [Finite (1 / 2), Finite (1 / 2)] [100, 0]) ! 1 \<and>
   under_ratio (example_reached [Finite (1 / 2), Finite (1 / 2)] [100, 0]) 1 \<and>
   map_sum id fst (alloc_type (example_reached [Finite (1 / 2), Finite (1 / 2)] [100, 0])) = Inr 1 \<and>
   map_sum id fst (ingest example_ts0
       (example_fresh [Finite (1 / 2), Finite (1 / 2)] [100, 0] example_timer_300)
       [(''a'', []), (''a'', []), (''b'', [])])
     = Inr [0, 0, 1]"
proof (intro conjI)
  show "ClientManager_init (example_options [Finite (1 / 2), Finite (1 / 2)] [0, 100]) example_timer_0 id
     = Inr (example_fresh [Finite (1 / 2), Finite (1 / 2)] [0, 100] example_timer_0)"
    by (simp add: ClientManager_init_def example_options_def example_fresh_def)
  show "ClientManager_init (example_options [Finite (1 / 2), Finite (1 / 2)] [100, 0]) example_timer_300 id
     = Inr (example_fresh [Finite (1 / 2), Finite (1 / 2)] [100, 0] example_timer_300)"
    by (simp add: ClientManager_init_def example_options_def example_fresh_def)
  show "ingest example_ts0 (example_fresh [Finite (1 / 2), Finite (1 / 2)] [100, 0] example_timer_300)
       [(''a'', []), (''a'', [])]
     = Inr ([0, 0], example_reached [Finite (1 / 2), Finite (1 / 2)] [100, 0])"
    by (rule example_reached_run)
qed code_simp+

text \<open>
  C2, amended. The policy tests a limit only as a fallback (for registries with one
  ratio and one limit per type). With \<open>m_n = 0\<close> it returns type 0 without any test.
  With \<open>m_n\<close> not 0 it returns the lowest type under its ratio when there is one,
  whatever the limit of that type; and a type that is not under its ratio is returned
  only when its count is below its limit.
\<close>

theorem alloc_type_limit_is_fallback:
  assumes "length (client_type_ratios (m_options m)) = length (m_num_clients m)"
    and "length (client_type_limits (m_options m)) = length (m_num_clients m)"
  shows
  "(m_n m = 0 \<longrightarrow> alloc_type m = Inr (0, m)) \<and>
   (m_n m \<noteq> 0 \<and> t < length (m_num_clients m) \<and> under_ratio m t \<and> (\<forall>s<t. \<not> under_ratio m s)
      \<longrightarrow> (\<exists>m1. alloc_type m = Inr (int t, m1))) \<and>
   (m_n m \<noteq> 0 \<and> alloc_type m = Inr (c, m2) \<and> \<not> under_ratio m (nat c)
      \<longrightarrow> 0 \<le> c \<and> nat c < length (m_num_clients m) \<and> under_limit m (nat c))"
proof (intro conjI impI)
  assume "m_n m = 0"
  then show "alloc_type m = Inr (0, m)"
    by (simp add: alloc_type_def)
next
  assume a: "m_n m \<noteq> 0 \<and> t < length (m_num_clients m) \<and> under_ratio m t \<and>
    (\<forall>s<t. \<not> under_ratio m s)"
  then have "filter (under_ratio m) [0 ..< length (m_num_clients m)]
      = t # filter (under_ratio m) [Suc t ..< length (m_num_clients m)]"
    by (intro filter_upt_first) simp_all
  with a show "\<exists>m1. alloc_type m = Inr (int t, m1)"
    by (simp add: alloc_type_nonzero [OF _ assms] Let_def CLIENT_INVALID_def)
next
  assume a: "m_n m \<noteq> 0 \<and> alloc_type m = Inr (c, m2) \<and> \<not> under_ratio m (nat c)"
  define q0 where "q0 = map int (filter (under_ratio m) [0 ..< length (m_num_clients m)])"
  define q1 where "q1 = map int (filter (under_limit m) [0 ..< length (m_num_clients m)])"
  from a have c: "c = (if q0 \<noteq> [] then hd q0 else if q1 \<noteq> [] then hd q1 else CLIENT_INVALID)"
    and v: "c \<noteq> CLIENT_INVALID"
    by (auto simp add: alloc_type_nonzero [OF _ assms] Let_def q0_def q1_def split: if_splits)
  have "q0 = []"
  proof (rule ccontr)
    assume ne: "q0 \<noteq> []"
    then have "hd q0 \<in> set q0" by simp
    then obtain s where "hd q0 = int s" "under_ratio m s" by (auto simp add: q0_def)
    with ne c a show False by simp
  qed
  with c v have "q1 \<noteq> []" and "c = hd q1" by (auto split: if_splits)
  then have "c \<in> set q1" by simp
  then obtain s where "c = int s" "s < length (m_num_clients m)" "under_limit m s"
    by (auto simp add: q1_def)
  then have "0 \<le> c \<and> nat c < length (m_num_clients m) \<and> under_limit m (nat c)" by simp
  then show "0 \<le> c" and "nat c < length (m_num_clients m)" and "under_limit m (nat c)"
    by simp_all
qed

text \<open>
  The theorem at registries that runs reach: a new registry (total 0), and the
  registries reached when client \<open>a\<close> has timed out (total \<open>- 1\<close>). With ratios
  \<open>[0.5, 0.5]\<close> and limits \<open>[100, 0]\<close>, type 1 is the lowest type under its ratio and is
  returned, although it is not under its limit. With ratios \<open>[1.0, 0.0]\<close> and limits
  \<open>[1, 100]\<close>, type 0 is returned and is not under its ratio: it is under its limit.
\<close>

theorem alloc_type_limit_is_fallback_witness:
  "alloc_type (example_fresh [Finite (1 / 2), Finite (1 / 2)] [100, 0] example_timer_300)
     = Inr (0, example_fresh [Finite (1 / 2), Finite (1 / 2)] [100, 0] example_timer_300) \<and>
   ingest example_ts0 (example_fresh [Finite (1 / 2), Finite (1 / 2)] [100, 0] example_timer_300)
       [(''a'', []), (''a'', [])]
     = Inr ([0, 0], example_reached [Finite (1 / 2), Finite (1 / 2)] [100, 0]) \<and>
   \<not> under_limit (example_reached [Finite (1 / 2), Finite (1 / 2)] [100, 0]) (Suc 0) \<and>
   (\<exists>m1. alloc_type (example_reached [Finite (1 / 2), Finite (1 / 2)] [100, 0]) = Inr (1, m1)) \<and>
   ingest example_ts0 (example_fresh [Finite 1, Finite 0] [1, 100] example_timer_300)
       [(''a'', []), (''a'', [])]
     = Inr ([0, 0], example_reached [Finite 1, Finite 0] [1, 100]) \<and>
   (\<exists>m2. alloc_type (example_reached [Finite 1, Finite 0] [1, 100]) = Inr (0, m2)) \<and>
   \<not> under_ratio (example_reached [Finite 1, Finite 0] [1, 100]) 0 \<and>
   under_limit (example_reached [Finite 1, Finite 0] [1, 100]) 0"
proof (intro conjI)
  have sizes: "length (client_type_ratios (m_options (example_fresh [r0, r1] [l0, l1] tm)))
      = length (m_num_clients (example_fresh [r0, r1] [l0, l1] tm))"
    "length (client_type_limits (m_options (example_fresh [r0, r1] [l0, l1] tm)))
      = length (m_num_clients (example_fresh [r0, r1] [l0, l1] tm))"
    for r0 r1 l0 l1 tm
    by (simp_all add: example_fresh_def example_options_def)
  show "alloc_type (example_fresh [Finite (1 / 2), Finite (1 / 2)] [100, 0] example_timer_300)
     = Inr (0, example_fresh [Finite (1 / 2), Finite (1 / 2)] [100, 0] example_timer_300)"
    using alloc_type_limit_is_fallback [OF sizes,
        of "Finite (1 / 2)" "Finite (1 / 2)" 100 0 example_timer_300]
    by (simp add: example_fresh_def)
  show "ingest example_ts0 (example_fresh [Finite (1 / 2), Finite (1 / 2)] [100, 0] example_timer_300)
       [(''a'', []), (''a'', [])]
     = Inr ([0, 0], example_reached [Finite (1 / 2), Finite (1 / 2)] [100, 0])"
    by (rule example_reached_run)
  show "\<not> under_limit (example_reached [Finite (1 / 2), Finite (1 / 2)] [100, 0]) (Suc 0)"
    by (rule example_reached_facts)
  show "\<exists>m1. alloc_type (example_reached [Finite (1 / 2), Finite (1 / 2)] [100, 0]) = Inr (1, m1)"
    using alloc_type_limit_is_fallback [OF example_reached_facts(1,2), where t = "Suc 0"]
    by (simp add: example_reached_facts)
  show "ingest example_ts0 (example_fresh [Finite 1, Finite 0] [1, 100] example_timer_300)
       [(''a'', []), (''a'', [])]
     = Inr ([0, 0], example_reached [Finite 1, Finite 0] [1, 100])"
    by (rule example_reached_run)
  from example_reached_facts(13) obtain m2
    where a: "alloc_type (example_reached [Finite 1, Finite 0] [1, 100]) = Inr (0, m2)"
    by (cases "alloc_type (example_reached [Finite 1, Finite 0] [1, 100])") auto
  then show "\<exists>m2. alloc_type (example_reached [Finite 1, Finite 0] [1, 100]) = Inr (0, m2)"
    by blast
  show "\<not> under_ratio (example_reached [Finite 1, Finite 0] [1, 100]) 0"
    by (rule example_reached_facts)
  show "under_limit (example_reached [Finite 1, Finite 0] [1, 100]) 0"
    using alloc_type_limit_is_fallback [OF example_reached_facts(9,10), where c = 0 and ?m2.0 = m2] a
    by (simp add: example_reached_facts)
qed

subsection \<open>The counters of the registry\<close>

text \<open>
  C1, evaluated. A new registry (two types, ratios \<open>[0.5, 0.5]\<close>, limits \<open>[100, 100]\<close>,
  timer constantly 0, map iterated in insertion order) ingests the first heartbeat of
  client \<open>a\<close>. Afterwards \<open>m_n\<close> is 0
  and the entries of \<open>m_num_clients\<close> sum to 0, while one record is active: \<open>alloc_type\<close>
  returns type 0 at \<open>m_n = 0\<close> before it reaches the two increments.
\<close>

theorem first_heartbeat_is_not_counted:
  "(case ClientManager_init (example_options [Finite (1 / 2), Finite (1 / 2)] [100, 100]) (\<lambda>k. 0) id of
      Inl f \<Rightarrow> Inl f
    | Inr m \<Rightarrow> map_sum id (\<lambda>r. counts (snd r)) (updateStates example_ts0 m ''a'' (example_states 1)))
   = Inr (0, 0, 1)"
  by code_simp

text \<open>
  C5, evaluated. The same new registry ingests the first heartbeats of the clients \<open>a\<close>,
  \<open>b\<close> and \<open>c\<close>: the records returned have the types 0, 0, 0 (not 0, 1, 0), since
  \<open>m_n\<close> is still 0 at each allocation.
\<close>

theorem three_first_heartbeats_get_type_0:
  "(case ClientManager_init (example_options [Finite (1 / 2), Finite (1 / 2)] [100, 100]) (\<lambda>k. 0) id of
      Inl f \<Rightarrow> Inl f
    | Inr m \<Rightarrow> map_sum id fst (ingest example_ts0 m
        [(''a'', example_states 1), (''b'', example_states 1), (''c'', example_states 1)]))
   = Inr [0, 0, 0]"
  by code_simp

subsection \<open>Timestamps under a non-decreasing timer\<close>

lemma stamps_upto_mono:
  assumes "non_decreasing tm" "k \<le> k'" "stamps_upto tm k c"
  shows "stamps_upto tm k' c"
proof -
  from assms(1,2) have le: "tm k \<le> tm k'"
    by (simp add: non_decreasing_def)
  from assms(3) have "m_last_update c \<le> tm k"
    by (simp add: stamps_upto_def)
  then have "m_last_update c \<le> tm k'"
    using le by (rule order_trans)
  moreover have "\<forall>st \<in> set (m_threads c). m_last_state_update_ts st \<le> tm k'"
  proof
    fix st assume "st \<in> set (m_threads c)"
    with assms(3) have "m_last_state_update_ts st \<le> tm k" by (simp add: stamps_upto_def)
    then show "m_last_state_update_ts st \<le> tm k'" using le by (rule order_trans)
  qed
  ultimately show ?thesis by (simp add: stamps_upto_def)
qed

lemma stamps_le_refl: "stamps_le c c"
  by (simp add: stamps_le_def)

lemma stamps_le_trans:
  assumes "stamps_le a b" "stamps_le b c"
  shows "stamps_le a c"
proof -
  from assms have "m_last_update a \<le> m_last_update b" "m_last_update b \<le> m_last_update c"
    by (simp_all add: stamps_le_def)
  then have "m_last_update a \<le> m_last_update c"
    by (rule order_trans)
  moreover have "length (m_threads c) = length (m_threads a)"
    using assms by (simp add: stamps_le_def)
  moreover have "\<forall>i<length (m_threads a).
      m_last_state_update_ts (m_threads a ! i) \<le> m_last_state_update_ts (m_threads c ! i)"
  proof (intro allI impI)
    fix i assume i: "i < length (m_threads a)"
    with assms(1) have 1: "m_last_state_update_ts (m_threads a ! i) \<le> m_last_state_update_ts (m_threads b ! i)"
      and "i < length (m_threads b)"
      by (simp_all add: stamps_le_def)
    with assms(2) have 2: "m_last_state_update_ts (m_threads b ! i) \<le> m_last_state_update_ts (m_threads c ! i)"
      by (simp add: stamps_le_def)
    from 1 2 show "m_last_state_update_ts (m_threads a ! i) \<le> m_last_state_update_ts (m_threads c ! i)"
      by (rule order_trans)
  qed
  ultimately show ?thesis by (simp add: stamps_le_def)
qed

lemma stateUpdate_stamps:
  assumes nd: "non_decreasing tm"
    and up: "stamps_upto tm k c"
    and su: "stateUpdate tm k c ts = Inr (c', k')"
  shows "k \<le> k' \<and> stamps_upto tm k' c' \<and> stamps_le c c'"
proof -
  define i where "i = nat (thread_id ts)"
  from su have i: "i < length (m_threads c)"
    by (auto simp add: stateUpdate_def i_def split: if_splits)
  have t1: "tm k \<le> tm (Suc k)"
    using nd by (simp add: non_decreasing_def)
  show ?thesis
  proof (cases "m_last_state (m_threads c ! i) = ts")
    case True
    with su i have "c' = c\<lparr>m_threads := m_threads c\<rparr>" and "k' = k"
      by (auto simp add: stateUpdate_def StateUpdate_def i_def Let_def split: if_splits)
    with up show ?thesis by (simp add: stamps_le_def stamps_upto_def)
  next
    case False
    define st where "st = (m_threads c ! i)\<lparr>m_last_state := ts, m_last_state_update_ts := tm k\<rparr>"
    define c1 where "c1 = c\<lparr>m_threads := (m_threads c)[i := st], m_last_update := tm (Suc k)\<rparr>"
    from False su i have c': "c' = c1" and k': "k' = Suc (Suc k)"
      by (auto simp add: stateUpdate_def StateUpdate_def i_def st_def c1_def Let_def split: if_splits)
    have lu: "m_last_update c \<le> tm (Suc k)"
    proof -
      from up have "m_last_update c \<le> tm k" by (simp add: stamps_upto_def)
      then show ?thesis using t1 by (rule order_trans)
    qed
    have a1: "stamps_upto tm (Suc k) c1"
    proof -
      have "\<forall>x \<in> set ((m_threads c)[i := st]). m_last_state_update_ts x \<le> tm (Suc k)"
      proof
        fix x assume "x \<in> set ((m_threads c)[i := st])"
        then have "x = st \<or> x \<in> set (m_threads c)"
          using set_update_subset_insert [of "m_threads c" i st] by auto
        then have "m_last_state_update_ts x \<le> tm k"
          using up by (auto simp add: st_def stamps_upto_def)
        then show "m_last_state_update_ts x \<le> tm (Suc k)"
          using t1 by (rule order_trans)
      qed
      then show ?thesis by (simp add: c1_def stamps_upto_def)
    qed
    have a: "stamps_upto tm k' c'"
      unfolding c' k' by (rule stamps_upto_mono [OF nd _ a1]) simp
    have b: "stamps_le c c'"
    proof -
      have "\<forall>j<length (m_threads c).
          m_last_state_update_ts (m_threads c ! j) \<le> m_last_state_update_ts ((m_threads c)[i := st] ! j)"
        using up i by (auto simp add: nth_list_update st_def stamps_upto_def)
      with lu show ?thesis by (simp add: c' c1_def stamps_le_def)
    qed
    from a b k' show ?thesis by simp
  qed
qed

lemma updateStates_loop_stamps:
  "non_decreasing tm \<Longrightarrow> stamps_upto tm k c \<Longrightarrow>
   updateStates_loop tm k c states = Inr (c', k') \<Longrightarrow>
   k \<le> k' \<and> stamps_upto tm k' c' \<and> stamps_le c c'"
proof (induction states arbitrary: k c)
  case Nil
  then show ?case by (simp add: stamps_le_refl)
next
  case (Cons s states)
  from Cons.prems(3) obtain c1 k1
    where s1: "stateUpdate tm k c (snd s) = Inr (c1, k1)"
      and s2: "updateStates_loop tm k1 c1 states = Inr (c', k')"
    by (auto split: sum.splits)
  from stateUpdate_stamps [OF Cons.prems(1,2) s1]
  have a: "k \<le> k1" "stamps_upto tm k1 c1" "stamps_le c c1" by simp_all
  from Cons.IH [OF Cons.prems(1) a(2) s2]
  have b: "k1 \<le> k'" "stamps_upto tm k' c'" "stamps_le c1 c'" by simp_all
  from a(1) b(1) have "k \<le> k'" by simp
  moreover from a(3) b(3) have "stamps_le c c'" by (rule stamps_le_trans)
  ultimately show ?case using b(2) by simp
qed

lemma updateActive_stamps:
  "updateActive tm k c = (status, c', k') \<Longrightarrow>
   k' = Suc k \<and> m_last_update c' = m_last_update c \<and> m_threads c' = m_threads c"
  by (auto simp add: updateActive_def Let_def split: if_splits)

lemma alloc_type_frame:
  "alloc_type m = Inr (t, m') \<Longrightarrow>
   m_timer m' = m_timer m \<and> m_timer_calls m' = m_timer_calls m \<and> m_clients m' = m_clients m"
  by (auto simp add: alloc_type_def Let_def split: if_splits sum.splits)

lemma dealloc_type_frame:
  "dealloc_type m t = Inr m' \<Longrightarrow>
   m_timer m' = m_timer m \<and> m_timer_calls m' = m_timer_calls m \<and> m_clients m' = m_clients m"
  by (auto simp add: dealloc_type_def split: if_splits)

lemma updateClients_loop_stamps:
  "updateClients_loop m cs = Inr (m', cs', newly_dead, newly_alive) \<Longrightarrow>
   m_timer m' = m_timer m \<and> m_timer_calls m \<le> m_timer_calls m' \<and> list_all2 same_stamps cs cs'"
proof (induction cs arbitrary: m m' cs' newly_dead newly_alive)
  case Nil
  then show ?case by simp
next
  case (Cons e cs)
  obtain ident c where e: "e = (ident, c)" by (cases e)
  obtain status c1 k1
    where ua: "updateActive (m_timer m) (m_timer_calls m) c = (status, c1, k1)"
    by (cases "updateActive (m_timer m) (m_timer_calls m) c") auto
  from updateActive_stamps [OF ua]
  have k1: "k1 = Suc (m_timer_calls m)"
    and c1: "m_last_update c1 = m_last_update c" "m_threads c1 = m_threads c"
    by simp_all
  define m1 where "m1 = m\<lparr>m_timer_calls := k1\<rparr>"
  have m1: "m_timer m1 = m_timer m" "m_timer_calls m1 = Suc (m_timer_calls m)"
    by (simp_all add: m1_def k1)
  consider (dead) "status = ALIVE2DEAD" | (alive) "status = DEAD2ALIVE"
    | (same) "status \<noteq> ALIVE2DEAD" "status \<noteq> DEAD2ALIVE"
    by blast
  then show ?case
  proof cases
    case dead
    with Cons.prems e ua obtain m2 rest' nd
      where d: "dealloc_type m1 (m_type c1) = Inr m2"
        and r: "updateClients_loop m2 cs = Inr (m', rest', nd, newly_alive)"
        and cs': "cs' = (ident, c1) # rest'"
      by (auto simp add: m1_def split: sum.splits)
    from dealloc_type_frame [OF d] m1
    have m2: "m_timer m2 = m_timer m" "m_timer_calls m2 = Suc (m_timer_calls m)" by simp_all
    from Cons.IH [OF r] m2 c1 show ?thesis
      by (simp add: cs' e same_stamps_def)
  next
    case alive
    with Cons.prems e ua obtain t m2 rest' na
      where d: "alloc_type m1 = Inr (t, m2)"
        and r: "updateClients_loop m2 cs = Inr (m', rest', newly_dead, na)"
        and cs': "cs' = (ident, set_type c1 t) # rest'"
      by (auto simp add: m1_def split: sum.splits)
    from alloc_type_frame [OF d] m1
    have m2: "m_timer m2 = m_timer m" "m_timer_calls m2 = Suc (m_timer_calls m)" by simp_all
    from Cons.IH [OF r] m2 c1 show ?thesis
      by (simp add: cs' e same_stamps_def set_type_def)
  next
    case same
    with Cons.prems e ua obtain rest'
      where r: "updateClients_loop m1 cs = Inr (m', rest', newly_dead, newly_alive)"
        and cs': "cs' = (ident, c1) # rest'"
      by (auto simp add: m1_def split: sum.splits)
    from Cons.IH [OF r] m1 c1 show ?thesis
      by (simp add: cs' e same_stamps_def)
  qed
qed

lemma updateClients_stamps:
  assumes "updateClients m = Inr m'"
  shows "m_timer m' = m_timer m \<and> m_timer_calls m \<le> m_timer_calls m' \<and>
    list_all2 same_stamps (m_clients m) (m_clients m')"
proof -
  from assms obtain m1 cs nd na
    where l: "updateClients_loop m (m_clients m) = Inr (m1, cs, nd, na)"
      and m': "m' = (if nd \<noteq> [] \<or> na \<noteq> []
                     then m1\<lparr>m_clients := cs, m_timer_calls := Suc (m_timer_calls m1)\<rparr>
                     else m1\<lparr>m_clients := cs\<rparr>)"
    by (auto simp add: updateClients_def getCurrTimeStamp_def Let_def split: sum.splits if_splits)
  from updateClients_loop_stamps [OF l] show ?thesis
    by (simp add: m')
qed

lemma same_stamps_map_of:
  "list_all2 same_stamps cs cs' \<Longrightarrow> map_of cs i = Some c \<Longrightarrow>
   \<exists>c'. map_of cs' i = Some c' \<and> stamps_le c c'"
proof (induction rule: list_all2_induct)
  case Nil
  then show ?case by simp
next
  case (Cons e cs e' cs')
  show ?case
  proof (cases "fst e = i")
    case True
    with Cons.prems have "snd e = c" by (cases e) simp
    moreover from True Cons.hyps(1) have "map_of (e' # cs') i = Some (snd e')"
      by (cases e') (simp add: same_stamps_def)
    moreover from Cons.hyps(1) have "stamps_le (snd e) (snd e')"
      by (simp add: same_stamps_def stamps_le_def)
    ultimately show ?thesis by simp
  next
    case False
    with Cons.prems have "map_of cs i = Some c" by (cases e) simp
    from Cons.IH [OF this] False Cons.hyps(1) show ?thesis
      by (cases e') (simp add: same_stamps_def)
  qed
qed

lemma same_stamps_upto:
  "list_all2 same_stamps cs cs' \<Longrightarrow> \<forall>e \<in> set cs. stamps_upto tm k (snd e) \<Longrightarrow>
   \<forall>e' \<in> set cs'. stamps_upto tm k (snd e')"
  by (induction rule: list_all2_induct) (simp_all add: same_stamps_def stamps_upto_def)

lemma new_threads_stamps:
  "non_decreasing tm \<Longrightarrow> new_threads tm k dts n = (ths, k') \<Longrightarrow>
   k \<le> k' \<and> (\<forall>st \<in> set ths. m_last_state_update_ts st \<le> tm k')"
proof (induction n arbitrary: k ths k')
  case 0
  then show ?case by simp
next
  case (Suc n)
  obtain sts k2 where r: "new_threads tm (Suc k) dts n = (sts, k2)"
    by (cases "new_threads tm (Suc k) dts n") auto
  with Suc.prems(2)
  have ths: "ths = \<lparr>m_last_state = dts, m_last_state_update_ts = tm k\<rparr> # sts" and k': "k' = k2"
    by (simp_all add: State_init_def)
  from Suc.IH [OF Suc.prems(1) r]
  have a: "Suc k \<le> k2" "\<forall>st \<in> set sts. m_last_state_update_ts st \<le> tm k2" by simp_all
  from a(1) Suc.prems(1) have "tm k \<le> tm k2"
    by (simp add: non_decreasing_def)
  with a show ?case by (simp add: ths k')
qed

lemma ClientInfo_init_stamps:
  assumes "non_decreasing tm"
    and "ClientInfo_init tm k dts ident num_threads max_delay_sec = (e, k1)"
  shows "k \<le> k1 \<and> stamps_upto tm k1 e"
proof -
  obtain ths k2 where r: "new_threads tm k dts (nat num_threads) = (ths, k2)"
    by (cases "new_threads tm k dts (nat num_threads)") auto
  with assms(2) have e: "m_last_update e = tm k2" "m_threads e = ths" and k1: "k1 = Suc k2"
    by (auto simp add: ClientInfo_init_def)
  from new_threads_stamps [OF assms(1) r]
  have a: "k \<le> k2" "\<forall>st \<in> set ths. m_last_state_update_ts st \<le> tm k2" by simp_all
  then have "stamps_upto tm k2 e"
    by (simp add: stamps_upto_def e)
  from stamps_upto_mono [OF assms(1) _ this, of k1] a(1) show ?thesis
    by (simp add: k1)
qed

lemma set_AList_update: "set (AList.update k v al) \<subseteq> insert (k, v) (set al)"
  by (induction al) auto

lemma set_arrange: "set (arrange ord cs) \<subseteq> set cs"
proof (cases "distinct (ord (map fst cs)) \<and> set (ord (map fst cs)) = set (map fst cs)")
  case True
  have "(k, the (map_of cs k)) \<in> set cs" if "k \<in> set (map fst cs)" for k
  proof -
    from that obtain v where "map_of cs k = Some v"
      by (cases "map_of cs k") (auto simp add: map_of_eq_None_iff)
    then show ?thesis by (auto dest: map_of_SomeD)
  qed
  with True show ?thesis by (auto simp add: arrange_def)
next
  case False
  then show ?thesis by (auto simp add: arrange_def Let_def)
qed

lemma map_of_arrange: "map_of (arrange ord cs) = map_of cs"
proof (cases "distinct (ord (map fst cs)) \<and> set (ord (map fst cs)) = set (map fst cs)")
  case True
  have "map_of (map (\<lambda>k. (k, the (map_of cs k))) (ord (map fst cs))) k = map_of cs k" for k
  proof (cases "map_of cs k")
    case None
    then have "k \<notin> set (ord (map fst cs))"
      using True by (simp add: map_of_eq_None_iff)
    with None show ?thesis
      by (simp add: map_of_map_restrict)
  next
    case (Some v)
    then have "k \<in> set (ord (map fst cs))"
      using True by (metis map_of_eq_None_iff option.distinct(1) set_map)
    with Some show ?thesis
      by (simp add: map_of_map_restrict)
  qed
  with True show ?thesis by (auto simp add: arrange_def)
next
  case False
  then show ?thesis by (auto simp add: arrange_def Let_def)
qed

lemma registry_le_refl: "registry_le m m"
  by (simp add: registry_le_def stamps_le_refl)

lemma registry_le_trans:
  assumes "registry_le a b" "registry_le b c"
  shows "registry_le a c"
  unfolding registry_le_def
proof (intro allI impI)
  fix ident x assume "map_of (m_clients a) ident = Some x"
  with assms(1) obtain y where y: "map_of (m_clients b) ident = Some y" "stamps_le x y"
    by (auto simp add: registry_le_def)
  with assms(2) obtain z where z: "map_of (m_clients c) ident = Some z" "stamps_le y z"
    by (auto simp add: registry_le_def)
  from y(2) z(2) have "stamps_le x z" by (rule stamps_le_trans)
  with z(1) show "\<exists>c'. map_of (m_clients c) ident = Some c' \<and> stamps_le x c'" by simp
qed

lemma getClient_impl_stamps:
  assumes nd: "non_decreasing (m_timer m)"
    and b: "registry_stamps_upto m"
    and g: "getClient_impl dts m ident = Inr m'"
  shows "m_timer m' = m_timer m \<and> registry_stamps_upto m' \<and> registry_le m m' \<and>
    (\<exists>c. map_of (m_clients m') ident = Some c)"
proof (cases "map_of (m_clients m) ident")
  case (Some c)
  with g have "m' = m" by (simp add: getClient_impl_def)
  with Some b show ?thesis by (simp add: registry_le_refl)
next
  case None
  obtain e k1
    where ci: "ClientInfo_init (m_timer m) (m_timer_calls m) dts ident
                 (max_num_threads (m_options m)) (client_max_delay_sec (m_options m)) = (e, k1)"
    by (cases "ClientInfo_init (m_timer m) (m_timer_calls m) dts ident
                 (max_num_threads (m_options m)) (client_max_delay_sec (m_options m))") auto
  with None g obtain t m2
    where al: "alloc_type (m\<lparr>m_timer_calls := k1\<rparr>) = Inr (t, m2)"
      and m': "m' = m2\<lparr>m_clients :=
                      arrange (m_order m) (m_clients m @ [(ident, set_type e t)])\<rparr>"
    by (auto simp add: getClient_impl_def split: sum.splits)
  from alloc_type_frame [OF al]
  have m2: "m_timer m2 = m_timer m" "m_timer_calls m2 = k1" by simp_all
  from ClientInfo_init_stamps [OF nd ci]
  have k1: "m_timer_calls m \<le> k1" and e: "stamps_upto (m_timer m) k1 e" by simp_all
  have "registry_stamps_upto m'"
    unfolding registry_stamps_upto_def
  proof
    fix x assume "x \<in> set (m_clients m')"
    then have "x = (ident, set_type e t) \<or> x \<in> set (m_clients m)"
      using set_arrange [of "m_order m" "m_clients m @ [(ident, set_type e t)]"]
      by (auto simp add: m')
    then show "stamps_upto (m_timer m') (m_timer_calls m') (snd x)"
    proof
      assume "x = (ident, set_type e t)"
      with e show ?thesis by (simp add: m' m2 stamps_upto_def set_type_def)
    next
      assume "x \<in> set (m_clients m)"
      with b have "stamps_upto (m_timer m) (m_timer_calls m) (snd x)"
        by (simp add: registry_stamps_upto_def)
      from stamps_upto_mono [OF nd k1 this] show ?thesis by (simp add: m' m2)
    qed
  qed
  moreover have "registry_le m m'"
    using None by (auto simp add: registry_le_def m' map_of_arrange map_add_def stamps_le_refl)
  moreover have "\<exists>c. map_of (m_clients m') ident = Some c"
    using None by (simp add: m' map_of_arrange map_add_def)
  ultimately show ?thesis by (simp add: m' m2)
qed

lemma updateStates_stamps:
  assumes nd: "non_decreasing (m_timer m)"
    and b: "registry_stamps_upto m"
    and u: "updateStates dts m ident states = Inr (info', m')"
  shows "m_timer m' = m_timer m \<and> registry_stamps_upto m' \<and> registry_le m m'"
proof -
  from u obtain m1 info k1
    where g: "getClient_impl dts m ident = Inr m1"
      and l: "updateStates_loop (m_timer m1) (m_timer_calls m1)
                (the (map_of (m_clients m1) ident)) states = Inr (info, k1)"
      and s: "updateClients (m1\<lparr>m_timer_calls := k1,
                m_clients := AList.update ident info (m_clients m1)\<rparr>) = Inr m'"
    by (auto simp add: updateStates_def split: sum.splits)
  from getClient_impl_stamps [OF nd b g] obtain c0
    where m1: "m_timer m1 = m_timer m" "registry_stamps_upto m1" "registry_le m m1"
      and c0: "map_of (m_clients m1) ident = Some c0"
    by blast
  from c0 have "(ident, c0) \<in> set (m_clients m1)" by (rule map_of_SomeD)
  with m1(2) have c0b: "stamps_upto (m_timer m) (m_timer_calls m1) c0"
    by (auto simp add: registry_stamps_upto_def m1(1))
  from l c0 have l': "updateStates_loop (m_timer m) (m_timer_calls m1) c0 states = Inr (info, k1)"
    by (simp add: m1(1))
  from updateStates_loop_stamps [OF nd c0b l']
  have i: "m_timer_calls m1 \<le> k1" "stamps_upto (m_timer m) k1 info" "stamps_le c0 info"
    by simp_all
  define m2 where "m2 = m1\<lparr>m_timer_calls := k1, m_clients := AList.update ident info (m_clients m1)\<rparr>"
  have m2b: "\<forall>e \<in> set (m_clients m2). stamps_upto (m_timer m) k1 (snd e)"
  proof
    fix x assume "x \<in> set (m_clients m2)"
    then have "x = (ident, info) \<or> x \<in> set (m_clients m1)"
      using set_AList_update [of ident info "m_clients m1"] by (auto simp add: m2_def)
    then show "stamps_upto (m_timer m) k1 (snd x)"
    proof
      assume "x = (ident, info)"
      with i(2) show ?thesis by simp
    next
      assume "x \<in> set (m_clients m1)"
      with m1(2) have "stamps_upto (m_timer m) (m_timer_calls m1) (snd x)"
        by (simp add: registry_stamps_upto_def m1(1))
      from stamps_upto_mono [OF nd i(1) this] show ?thesis .
    qed
  qed
  have le12: "registry_le m1 m2"
    unfolding registry_le_def
  proof (intro allI impI)
    fix j x assume x: "map_of (m_clients m1) j = Some x"
    show "\<exists>c'. map_of (m_clients m2) j = Some c' \<and> stamps_le x c'"
    proof (cases "j = ident")
      case True
      with x c0 i(3) show ?thesis by (simp add: m2_def update_conv')
    next
      case False
      with x show ?thesis by (simp add: m2_def update_conv' stamps_le_refl)
    qed
  qed
  from s have s': "updateClients m2 = Inr m'" by (simp add: m2_def)
  from updateClients_stamps [OF s']
  have m': "m_timer m' = m_timer m" "k1 \<le> m_timer_calls m'"
    and la: "list_all2 same_stamps (m_clients m2) (m_clients m')"
    by (simp_all add: m2_def m1(1))
  have "registry_stamps_upto m'"
    unfolding registry_stamps_upto_def
  proof
    fix x assume x: "x \<in> set (m_clients m')"
    from same_stamps_upto [OF la m2b] x have "stamps_upto (m_timer m) k1 (snd x)" by simp
    from stamps_upto_mono [OF nd m'(2) this]
    show "stamps_upto (m_timer m') (m_timer_calls m') (snd x)" by (simp add: m'(1))
  qed
  moreover have "registry_le m2 m'"
    unfolding registry_le_def using same_stamps_map_of [OF la] by blast
  with le12 have "registry_le m1 m'" by (rule registry_le_trans)
  with m1(3) have "registry_le m m'" by (rule registry_le_trans)
  ultimately show ?thesis using m'(1) by simp
qed

lemma apply_operation_stamps:
  assumes nd: "non_decreasing (m_timer m)"
    and b: "registry_stamps_upto m"
    and a: "apply_operation dts m x = Inr m'"
  shows "m_timer m' = m_timer m \<and> registry_stamps_upto m' \<and> registry_le m m'"
proof (cases x)
  case (UpdateStates ident states)
  with a obtain info where "updateStates dts m ident states = Inr (info, m')"
    by (auto split: sum.splits)
  from updateStates_stamps [OF nd b this] show ?thesis .
next
  case (GetClient ident)
  with a have "getClient_impl dts m ident = Inr m'"
    by (auto simp add: getClient_def split: sum.splits)
  from getClient_impl_stamps [OF nd b this] show ?thesis by simp
next
  case (SetClientTypeRatio ratio)
  with a have "m' = setClientTypeRatio m ratio" by simp
  with b show ?thesis
    by (simp add: setClientTypeRatio_def registry_stamps_upto_def registry_le_def stamps_le_refl)
qed

lemma run_operations_stamps:
  "non_decreasing (m_timer m) \<Longrightarrow> registry_stamps_upto m \<Longrightarrow>
   run_operations dts m xs = Inr m' \<Longrightarrow>
   m_timer m' = m_timer m \<and> registry_stamps_upto m' \<and> registry_le m m'"
proof (induction xs arbitrary: m)
  case Nil
  then show ?case by (simp add: registry_le_refl)
next
  case (Cons x xs)
  from Cons.prems(3) obtain m1
    where a: "apply_operation dts m x = Inr m1" and r: "run_operations dts m1 xs = Inr m'"
    by (auto split: sum.splits)
  from apply_operation_stamps [OF Cons.prems(1,2) a]
  have m1: "m_timer m1 = m_timer m" "registry_stamps_upto m1" "registry_le m m1" by simp_all
  from Cons.prems(1) m1(1) have "non_decreasing (m_timer m1)" by simp
  from Cons.IH [OF this m1(2) r]
  have m': "m_timer m' = m_timer m1" "registry_stamps_upto m'" "registry_le m1 m'" by simp_all
  from m1(3) m'(3) have "registry_le m m'" by (rule registry_le_trans)
  with m1(1) m'(1,2) show ?case by simp
qed

text \<open>
  C7. The timer never goes back (in the unsigned order of its \<open>uint64_t\<close> readings).
  A registry is constructed, with any order of iteration \<open>ord\<close>, and any operations \<open>ops1\<close> run on it without a fault; a
  record \<open>c1\<close> is then in the registry. After any further operations \<open>ops2\<close> that run
  without a fault, the record of the same identity is still there, its \<open>last_update_\<close>
  is not earlier than before, it has the same thread slots, and no slot's
  \<open>last_state_update_\<close> is earlier than before.
\<close>

theorem timestamps_never_decrease:
  assumes "non_decreasing tm"
    and "ClientManager_init options tm ord = Inr m0"
    and "run_operations dts m0 ops1 = Inr m1"
    and "run_operations dts m1 ops2 = Inr m2"
    and "map_of (m_clients m1) ident = Some c1"
  shows "\<exists>c2. map_of (m_clients m2) ident = Some c2 \<and>
     m_last_update c1 \<le> m_last_update c2 \<and>
     length (m_threads c2) = length (m_threads c1) \<and>
     (\<forall>i<length (m_threads c1).
        m_last_state_update_ts (m_threads c1 ! i) \<le> m_last_state_update_ts (m_threads c2 ! i))"
proof -
  from assms(2) have m0: "m_timer m0 = tm" "m_clients m0 = []"
    by (auto simp add: ClientManager_init_def split: if_splits)
  then have "registry_stamps_upto m0"
    by (simp add: registry_stamps_upto_def)
  moreover from assms(1) m0 have "non_decreasing (m_timer m0)" by simp
  ultimately have m1: "m_timer m1 = m_timer m0" "registry_stamps_upto m1"
    using run_operations_stamps [OF _ _ assms(3)] by simp_all
  with assms(1) m0 have "non_decreasing (m_timer m1)" by simp
  from run_operations_stamps [OF this m1(2) assms(4)]
  have "registry_le m1 m2" by simp
  with assms(5) show ?thesis
    by (simp add: registry_le_def stamps_le_def)
qed

lemma example_run_1:
  "map_sum id (\<lambda>m. map_option (\<lambda>c. (m_last_update c, map m_last_state_update_ts (m_threads c)))
         (map_of (m_clients m) ''a''))
     (run_operations example_ts0 example_new_registry [UpdateStates ''a'' (example_states 1)])
   = Inr (Some (10, [0]))"
  by code_simp

lemma example_run_2:
  "map_sum id (\<lambda>m. map_option (\<lambda>c. (m_last_update c, map m_last_state_update_ts (m_threads c)))
         (map_of (m_clients m) ''a''))
     (case run_operations example_ts0 example_new_registry [UpdateStates ''a'' (example_states 1)] of
        Inl f \<Rightarrow> Inl f
      | Inr m \<Rightarrow> run_operations example_ts0 m [UpdateStates ''a'' (example_states 2)])
   = Inr (Some (10, [10]))"
  by code_simp

theorem timestamps_never_decrease_witness:
  "non_decreasing example_timer \<and>
   (\<exists>m1 m2 c1 c2.
      ClientManager_init (example_options [Finite (1 / 2), Finite (1 / 2)] [100, 100]) example_timer id
        = Inr example_new_registry \<and>
      run_operations example_ts0 example_new_registry [UpdateStates ''a'' (example_states 1)] = Inr m1 \<and>
      run_operations example_ts0 m1 [UpdateStates ''a'' (example_states 2)] = Inr m2 \<and>
      map_of (m_clients m1) ''a'' = Some c1 \<and>
      map_of (m_clients m2) ''a'' = Some c2 \<and>
      map m_last_state_update_ts (m_threads c1) = [0] \<and>
      map m_last_state_update_ts (m_threads c2) = [10] \<and>
      m_last_update c1 \<le> m_last_update c2 \<and>
      (\<forall>i<length (m_threads c1).
         m_last_state_update_ts (m_threads c1 ! i) \<le> m_last_state_update_ts (m_threads c2 ! i)))"
proof -
  have nd: "non_decreasing example_timer"
    by (auto simp add: non_decreasing_def example_timer_def)
  have init: "ClientManager_init (example_options [Finite (1 / 2), Finite (1 / 2)] [100, 100])
      example_timer id = Inr example_new_registry"
    by (simp add: ClientManager_init_def example_options_def example_new_registry_def)
  from example_run_1 obtain m1 c1
    where r1: "run_operations example_ts0 example_new_registry
                 [UpdateStates ''a'' (example_states 1)] = Inr m1"
      and c1: "map_of (m_clients m1) ''a'' = Some c1"
      and s1: "map m_last_state_update_ts (m_threads c1) = [0]"
    by (cases "run_operations example_ts0 example_new_registry
                 [UpdateStates ''a'' (example_states 1)]") auto
  from example_run_2 r1 obtain m2 c2
    where r2: "run_operations example_ts0 m1 [UpdateStates ''a'' (example_states 2)] = Inr m2"
      and c2: "map_of (m_clients m2) ''a'' = Some c2"
      and s2: "map m_last_state_update_ts (m_threads c2) = [10]"
    by (cases "run_operations example_ts0 m1 [UpdateStates ''a'' (example_states 2)]") auto
  from timestamps_never_decrease [OF nd init r1 r2 c1] c2
  have le: "m_last_update c1 \<le> m_last_update c2"
    and les: "\<forall>i<length (m_threads c1).
        m_last_state_update_ts (m_threads c1 ! i) \<le> m_last_state_update_ts (m_threads c2 ! i)"
    by auto
  from init r1 r2 c1 c2 s1 s2 le les
  have "\<exists>m1 m2 c1 c2.
      ClientManager_init (example_options [Finite (1 / 2), Finite (1 / 2)] [100, 100]) example_timer id
        = Inr example_new_registry \<and>
      run_operations example_ts0 example_new_registry [UpdateStates ''a'' (example_states 1)] = Inr m1 \<and>
      run_operations example_ts0 m1 [UpdateStates ''a'' (example_states 2)] = Inr m2 \<and>
      map_of (m_clients m1) ''a'' = Some c1 \<and>
      map_of (m_clients m2) ''a'' = Some c2 \<and>
      map m_last_state_update_ts (m_threads c1) = [0] \<and>
      map m_last_state_update_ts (m_threads c2) = [10] \<and>
      m_last_update c1 \<le> m_last_update c2 \<and>
      (\<forall>i<length (m_threads c1).
         m_last_state_update_ts (m_threads c1 ! i) \<le> m_last_state_update_ts (m_threads c2 ! i))"
    by - (rule exI [of _ m1], rule exI [of _ m2], rule exI [of _ c1], rule exI [of _ c2],
        (intro conjI; assumption))
  with nd show ?thesis by (rule conjI)
qed

subsection \<open>The heartbeat loop\<close>

lemma stateUpdate_slots:
  assumes "stateUpdate tm k c ts = Inr (c', k')"
  shows "0 \<le> thread_id ts \<and> nat (thread_id ts) < length (m_threads c) \<and>
    length (m_threads c') = length (m_threads c) \<and>
    (\<forall>i<length (m_threads c). m_last_state (m_threads c' ! i)
        = (if thread_id ts = int i then ts else m_last_state (m_threads c ! i)))"
proof -
  from assms have r: "0 \<le> thread_id ts" "nat (thread_id ts) < length (m_threads c)"
    by (auto simp add: stateUpdate_def split: if_splits)
  show ?thesis
  proof (cases "m_last_state (m_threads c ! nat (thread_id ts)) = ts")
    case True
    with assms r have "m_threads c' = m_threads c"
      by (auto simp add: stateUpdate_def StateUpdate_def Let_def split: if_splits)
    with True r show ?thesis by auto
  next
    case False
    with assms r have "m_threads c' = (m_threads c)[nat (thread_id ts) :=
        (m_threads c ! nat (thread_id ts))\<lparr>m_last_state := ts, m_last_state_update_ts := tm k\<rparr>]"
      by (auto simp add: stateUpdate_def StateUpdate_def Let_def split: if_splits)
    with r show ?thesis by (auto simp add: nth_list_update)
  qed
qed

lemma find_snoc:
  "List.find P (xs @ [x]) = (case List.find P xs of Some y \<Rightarrow> Some y | None \<Rightarrow> if P x then Some x else None)"
  by (induction xs) auto

lemma find_SomeD: "List.find P xs = Some x \<Longrightarrow> P x \<and> x \<in> set xs"
  by (induction xs) (auto split: if_splits)

text \<open>
  After the loop of \<open>updateStates\<close>, slot \<open>i\<close> holds the value iterated last among the
  values whose \<open>thread_id\<close> is \<open>i\<close>, and its old state when there is none.
\<close>

lemma updateStates_loop_slots:
  "updateStates_loop tm k c states = Inr (c', k') \<Longrightarrow>
   length (m_threads c') = length (m_threads c) \<and>
   (\<forall>s \<in> set states. 0 \<le> thread_id (snd s) \<and> nat (thread_id (snd s)) < length (m_threads c)) \<and>
   (\<forall>i<length (m_threads c). m_last_state (m_threads c' ! i)
       = (case List.find (\<lambda>ts. thread_id ts = int i) (rev (map snd states)) of
            Some ts \<Rightarrow> ts
          | None \<Rightarrow> m_last_state (m_threads c ! i)))"
proof (induction states arbitrary: k c)
  case Nil
  then show ?case by simp
next
  case (Cons s states)
  from Cons.prems obtain c1 k1
    where s1: "stateUpdate tm k c (snd s) = Inr (c1, k1)"
      and s2: "updateStates_loop tm k1 c1 states = Inr (c', k')"
    by (auto split: sum.splits)
  from stateUpdate_slots [OF s1]
  have a: "0 \<le> thread_id (snd s)" "nat (thread_id (snd s)) < length (m_threads c)"
    "length (m_threads c1) = length (m_threads c)"
    "\<forall>i<length (m_threads c). m_last_state (m_threads c1 ! i)
        = (if thread_id (snd s) = int i then snd s else m_last_state (m_threads c ! i))"
    by simp_all
  from Cons.IH [OF s2] a(3)
  have b: "length (m_threads c') = length (m_threads c)"
    "\<forall>s \<in> set states. 0 \<le> thread_id (snd s) \<and> nat (thread_id (snd s)) < length (m_threads c)"
    "\<forall>i<length (m_threads c). m_last_state (m_threads c' ! i)
       = (case List.find (\<lambda>ts. thread_id ts = int i) (rev (map snd states)) of
            Some ts \<Rightarrow> ts
          | None \<Rightarrow> m_last_state (m_threads c1 ! i))"
    by simp_all
  have "m_last_state (m_threads c' ! i)
       = (case List.find (\<lambda>ts. thread_id ts = int i) (rev (map snd (s # states))) of
            Some ts \<Rightarrow> ts
          | None \<Rightarrow> m_last_state (m_threads c ! i))"
    if "i < length (m_threads c)" for i
    using that a(4) b(3) by (simp add: find_snoc split: option.splits)
  with a(1,2) b(1,2) show ?case by simp
qed

lemma new_threads_slots:
  "new_threads tm k dts n = (ths, k') \<Longrightarrow> \<forall>st \<in> set ths. m_last_state st = dts"
proof (induction n arbitrary: k ths k')
  case 0
  then show ?case by simp
next
  case (Suc n)
  obtain sts k2 where r: "new_threads tm (Suc k) dts n = (sts, k2)"
    by (cases "new_threads tm (Suc k) dts n") auto
  with Suc.prems
  have ths: "ths = \<lparr>m_last_state = dts, m_last_state_update_ts = tm k\<rparr> # sts"
    by (simp add: State_init_def)
  from Suc.IH [OF r] show ?case by (simp add: ths)
qed

text \<open>The slot states of the record that \<open>_getClient\<close> returns.\<close>

lemma getClient_impl_slots:
  assumes "getClient_impl dts m ident = Inr m1"
  shows "\<exists>c0. map_of (m_clients m1) ident = Some c0 \<and>
    (\<forall>i<length (m_threads c0). m_last_state (m_threads c0 ! i)
        = (case map_of (m_clients m) ident of
             Some c \<Rightarrow> m_last_state (m_threads c ! i)
           | None \<Rightarrow> dts))"
proof (cases "map_of (m_clients m) ident")
  case (Some c)
  with assms have "m1 = m" by (simp add: getClient_impl_def)
  with Some show ?thesis by simp
next
  case None
  obtain ths k2 where nt: "new_threads (m_timer m) (m_timer_calls m) dts
      (nat (max_num_threads (m_options m))) = (ths, k2)"
    by (cases "new_threads (m_timer m) (m_timer_calls m) dts (nat (max_num_threads (m_options m)))")
      auto
  obtain e k1
    where ci: "ClientInfo_init (m_timer m) (m_timer_calls m) dts ident
                 (max_num_threads (m_options m)) (client_max_delay_sec (m_options m)) = (e, k1)"
    by (cases "ClientInfo_init (m_timer m) (m_timer_calls m) dts ident
                 (max_num_threads (m_options m)) (client_max_delay_sec (m_options m))") auto
  with nt have e: "m_threads e = ths"
    by (auto simp add: ClientInfo_init_def)
  from ci None assms obtain t m2
    where m1: "m1 = m2\<lparr>m_clients := arrange (m_order m) (m_clients m @ [(ident, set_type e t)])\<rparr>"
    by (auto simp add: getClient_impl_def split: sum.splits)
  from None have "map_of (m_clients m1) ident = Some (set_type e t)"
    by (simp add: m1 map_of_arrange map_add_def)
  moreover from new_threads_slots [OF nt] e
  have "\<forall>i<length (m_threads (set_type e t)). m_last_state (m_threads (set_type e t) ! i) = dts"
    by (simp add: set_type_def)
  ultimately show ?thesis using None by simp
qed

lemma same_stamps_map_of_threads:
  "list_all2 same_stamps cs cs' \<Longrightarrow> map_of cs i = Some c \<Longrightarrow>
   \<exists>c'. map_of cs' i = Some c' \<and> m_threads c' = m_threads c"
proof (induction rule: list_all2_induct)
  case Nil
  then show ?case by simp
next
  case (Cons e cs e' cs')
  show ?case
  proof (cases "fst e = i")
    case True
    with Cons.prems have "snd e = c" by (cases e) simp
    moreover from True Cons.hyps(1) have "map_of (e' # cs') i = Some (snd e')"
      by (cases e') (simp add: same_stamps_def)
    moreover from Cons.hyps(1) have "m_threads (snd e') = m_threads (snd e)"
      by (simp add: same_stamps_def)
    ultimately show ?thesis by simp
  next
    case False
    with Cons.prems have "map_of cs i = Some c" by (cases e) simp
    from Cons.IH [OF this] False Cons.hyps(1) show ?thesis
      by (cases e') (simp add: same_stamps_def)
  qed
qed

text \<open>
  The slot states of the record that \<open>updateStates\<close> returns, from the values of the
  heartbeat alone.
\<close>

lemma updateStates_slots:
  assumes "updateStates dts m ident states = Inr (info', m')"
  shows "(\<forall>s \<in> set states. 0 \<le> thread_id (snd s) \<and> nat (thread_id (snd s)) < length (m_threads info')) \<and>
    (\<forall>i<length (m_threads info'). m_last_state (m_threads info' ! i)
       = (case List.find (\<lambda>ts. thread_id ts = int i) (rev (map snd states)) of
            Some ts \<Rightarrow> ts
          | None \<Rightarrow> (case map_of (m_clients m) ident of
                       Some c \<Rightarrow> m_last_state (m_threads c ! i)
                     | None \<Rightarrow> dts)))"
proof -
  from assms obtain m1 info k1 m2
    where g: "getClient_impl dts m ident = Inr m1"
      and l: "updateStates_loop (m_timer m1) (m_timer_calls m1)
                (the (map_of (m_clients m1) ident)) states = Inr (info, k1)"
      and s: "updateClients (m1\<lparr>m_timer_calls := k1,
                m_clients := AList.update ident info (m_clients m1)\<rparr>) = Inr m2"
      and r: "info' = the (map_of (m_clients m2) ident)"
    by (auto simp add: updateStates_def split: sum.splits)
  from getClient_impl_slots [OF g] obtain c0
    where c0: "map_of (m_clients m1) ident = Some c0"
      and c0s: "\<forall>i<length (m_threads c0). m_last_state (m_threads c0 ! i)
        = (case map_of (m_clients m) ident of
             Some c \<Rightarrow> m_last_state (m_threads c ! i)
           | None \<Rightarrow> dts)"
    by blast
  from l c0 have "updateStates_loop (m_timer m1) (m_timer_calls m1) c0 states = Inr (info, k1)"
    by simp
  from updateStates_loop_slots [OF this]
  have i: "length (m_threads info) = length (m_threads c0)"
    "\<forall>s \<in> set states. 0 \<le> thread_id (snd s) \<and> nat (thread_id (snd s)) < length (m_threads c0)"
    "\<forall>i<length (m_threads c0). m_last_state (m_threads info ! i)
       = (case List.find (\<lambda>ts. thread_id ts = int i) (rev (map snd states)) of
            Some ts \<Rightarrow> ts
          | None \<Rightarrow> m_last_state (m_threads c0 ! i))"
    by simp_all
  from updateClients_stamps [OF s]
  have "list_all2 same_stamps (AList.update ident info (m_clients m1)) (m_clients m2)"
    by simp
  moreover have "map_of (AList.update ident info (m_clients m1)) ident = Some info"
    by (simp add: update_conv')
  ultimately obtain c' where "map_of (m_clients m2) ident = Some c'" "m_threads c' = m_threads info"
    using same_stamps_map_of_threads by blast
  with r have t: "m_threads info' = m_threads info" by simp
  from i c0s show ?thesis by (simp add: t split: option.splits)
qed

text \<open>
  C10. \<open>states\<close> is the caller's map as the list of its pairs in the order of
  iteration, whatever that order is. When \<open>updateStates\<close> returns, every value of the
  heartbeat has a \<open>thread_id\<close> inside the record's slots, and the slot states of the
  returned record are fixed by the values alone, the keys \<open>fst s\<close> playing no part:
  slot \<open>i\<close> holds the value iterated last among the values whose \<open>thread_id\<close> is \<open>i\<close>,
  and the state it had before the call (the default state, for a new record) when no
  value has \<open>thread_id = i\<close>. So a pair \<open>(key, ts)\<close> whose \<open>thread_id\<close> no other value
  of the heartbeat shares leaves \<open>ts\<close> in slot \<open>thread_id ts\<close>, and slot \<open>key\<close> is as
  before unless some value names it.
\<close>

theorem updateStates_slot_by_thread_id:
  assumes "updateStates dts m ident states = Inr (info', m')"
  shows
  "(\<forall>s \<in> set states. 0 \<le> thread_id (snd s) \<and> nat (thread_id (snd s)) < length (m_threads info')) \<and>
   (\<forall>i<length (m_threads info'). m_last_state (m_threads info' ! i)
      = (case List.find (\<lambda>ts. thread_id ts = int i) (rev (map snd states)) of
           Some ts \<Rightarrow> ts
         | None \<Rightarrow> (case map_of (m_clients m) ident of
                      Some c \<Rightarrow> m_last_state (m_threads c ! i)
                    | None \<Rightarrow> dts))) \<and>
   (\<forall>s \<in> set states.
      (\<forall>s' \<in> set states. thread_id (snd s') = thread_id (snd s) \<longrightarrow> snd s' = snd s)
        \<longrightarrow> m_last_state (m_threads info' ! nat (thread_id (snd s))) = snd s) \<and>
   (\<forall>i<length (m_threads info').
      (\<forall>s \<in> set states. thread_id (snd s) \<noteq> int i)
        \<longrightarrow> m_last_state (m_threads info' ! i)
              = (case map_of (m_clients m) ident of
                   Some c \<Rightarrow> m_last_state (m_threads c ! i)
                 | None \<Rightarrow> dts))"
proof -
  from updateStates_slots [OF assms]
  have a: "\<forall>s \<in> set states. 0 \<le> thread_id (snd s) \<and> nat (thread_id (snd s)) < length (m_threads info')"
    and b: "\<forall>i<length (m_threads info'). m_last_state (m_threads info' ! i)
      = (case List.find (\<lambda>ts. thread_id ts = int i) (rev (map snd states)) of
           Some ts \<Rightarrow> ts
         | None \<Rightarrow> (case map_of (m_clients m) ident of
                      Some c \<Rightarrow> m_last_state (m_threads c ! i)
                    | None \<Rightarrow> dts))"
    by simp_all
  have c: "m_last_state (m_threads info' ! nat (thread_id (snd s))) = snd s"
    if s: "s \<in> set states"
      and u: "\<forall>s' \<in> set states. thread_id (snd s') = thread_id (snd s) \<longrightarrow> snd s' = snd s"
    for s
  proof -
    from a s have r: "0 \<le> thread_id (snd s)" "nat (thread_id (snd s)) < length (m_threads info')"
      by simp_all
    from s have "\<exists>x. x \<in> set (rev (map snd states)) \<and> thread_id x = thread_id (snd s)"
      by auto
    then obtain x
      where f: "List.find (\<lambda>ts. thread_id ts = thread_id (snd s)) (rev (map snd states)) = Some x"
      by (cases "List.find (\<lambda>ts. thread_id ts = thread_id (snd s)) (rev (map snd states))")
        (auto simp add: find_None_iff)
    from find_SomeD [OF this]
    have "thread_id x = thread_id (snd s)" and "x \<in> set (rev (map snd states))"
      by simp_all
    with u have "x = snd s" by auto
    with b r f show ?thesis by simp
  qed
  have d: "m_last_state (m_threads info' ! i)
      = (case map_of (m_clients m) ident of
           Some c \<Rightarrow> m_last_state (m_threads c ! i)
         | None \<Rightarrow> dts)"
    if i: "i < length (m_threads info')" and n: "\<forall>s \<in> set states. thread_id (snd s) \<noteq> int i"
    for i
  proof -
    from n have "List.find (\<lambda>ts. thread_id ts = int i) (rev (map snd states)) = None"
      by (auto simp add: find_None_iff)
    with b i show ?thesis by simp
  qed
  from a b c d show ?thesis by blast
qed

lemma example_wide_run:
  "map_sum id (\<lambda>r. length (m_threads (fst r)))
     (updateStates example_ts0 example_wide_registry ''a'' [(2, \<lparr>thread_id = 0, payload = 7\<rparr>)])
   = Inr 3"
  by code_simp

theorem updateStates_slot_by_thread_id_witness:
  "\<exists>info' m'.
     updateStates example_ts0 example_wide_registry ''a'' [(2, \<lparr>thread_id = 0, payload = 7\<rparr>)]
       = Inr (info', m') \<and>
     length (m_threads info') = 3 \<and>
     m_last_state (m_threads info' ! 0) = \<lparr>thread_id = 0, payload = 7\<rparr> \<and>
     m_last_state (m_threads info' ! 2) = example_ts0"
proof -
  from example_wide_run obtain info' m'
    where u: "updateStates example_ts0 example_wide_registry ''a''
                [(2, \<lparr>thread_id = 0, payload = 7\<rparr>)] = Inr (info', m')"
      and len: "length (m_threads info') = 3"
    by (cases "updateStates example_ts0 example_wide_registry ''a''
                 [(2, \<lparr>thread_id = 0, payload = 7\<rparr>)]") auto
  have new: "map_of (m_clients example_wide_registry) ''a'' = None"
    by (simp add: example_wide_registry_def)
  from updateStates_slot_by_thread_id [OF u] len new
  have "m_last_state (m_threads info' ! 0) = \<lparr>thread_id = 0, payload = 7\<rparr>"
    and "m_last_state (m_threads info' ! 2) = example_ts0"
    by simp_all
  with u len show ?thesis by blast
qed

end
